theory Spec2Isabelle
  imports Main "HOL-Library.Char_ord" "HOL-Library.List_Lexorder"
begin

section \<open>The currency editor widget (gnc-currency-edit.c)\<close>

text \<open>
  Modelled from the spec: the commodity of the commodity module, whose header is not among
  the files. It is identified by namespace and mnemonic and has a display name, the print
  name that \<^verbatim>\<open>gnc_commodity_get_printname\<close> returns, kept here as a field beside the
  full name.
\<close>

record gnc_commodity =
  cm_namespace :: string
  mnemonic :: string
  fullname :: string
  printname :: string

text \<open>
  The combo box: the one-column list store behind it, and the active row
  (\<open>None\<close> when the combo box is inactive).
\<close>

record GNCCurrencyEdit =
  model_rows :: "string list"
  active :: "nat option"

definition GNC_COMMODITY_NS_ISO :: string where
  \<comment> \<open>Modelled from the spec: the namespace of the ISO currencies, a constant of the
      commodity module's header; its value plays no part below.\<close>
  "GNC_COMMODITY_NS_ISO = ''ISO4217''"

definition gnc_commodity_table_get_commodities ::
    "gnc_commodity list \<Rightarrow> string \<Rightarrow> gnc_commodity list" where
  \<comment> \<open>Modelled from the spec: the commodity table's \<^verbatim>\<open>getCommodities(namespace)\<close>, the
      ordered sequence of the table's commodities of that namespace. The table is the list
      of its commodities.\<close>
  "gnc_commodity_table_get_commodities tbl ns = filter (\<lambda>c. cm_namespace c = ns) tbl"


text \<open>
  \<^verbatim>\<open>fill_currencies\<close>: the ISO commodities, sorted by \<^verbatim>\<open>strcmp\<close> on their print
  names (bytewise, which is the lexicographic order of \<open>char list\<close>; \<^verbatim>\<open>g_list_sort\<close>
  is stable, as \<open>sort_key\<close> is), each print name appended to the combo box.
\<close>

definition fill_currencies :: "gnc_commodity list \<Rightarrow> GNCCurrencyEdit \<Rightarrow> GNCCurrencyEdit" where
  "fill_currencies tbl gce =
     (let currencies = gnc_commodity_table_get_commodities tbl GNC_COMMODITY_NS_ISO;
          currencies = sort_key printname currencies
      in gce\<lparr>model_rows := model_rows gce @ map printname currencies\<rparr>)"

definition gnc_currency_edit_new :: "gnc_commodity list \<Rightarrow> GNCCurrencyEdit" where
  "gnc_currency_edit_new tbl = fill_currencies tbl \<lparr>model_rows = [], active = None\<rparr>"

text \<open>
  The \<^verbatim>\<open>do ... while (gtk_tree_model_iter_next ...)\<close> loop of
  \<^verbatim>\<open>gnc_currency_edit_set_currency\<close>: the rows from the iterator on, \<open>i\<close> the
  iterator's row. \<^verbatim>\<open>strcmp\<close> returns 0 exactly on equal strings. The loop returns the
  row it made active, or \<open>None\<close> when the iterator ran off the end.
\<close>

fun set_currency_scan :: "string \<Rightarrow> string list \<Rightarrow> nat \<Rightarrow> nat option" where
  "set_currency_scan pn [] i = None"
| "set_currency_scan pn (tree_string # rest) i =
     (if pn = tree_string then Some i else set_currency_scan pn rest (Suc i))"

definition gnc_currency_edit_set_currency ::
    "GNCCurrencyEdit \<Rightarrow> gnc_commodity option \<Rightarrow> GNCCurrencyEdit" where
  \<comment> \<open>\<open>None\<close> is the NULL currency that \<^verbatim>\<open>g_return_if_fail\<close> turns away.\<close>
  "gnc_currency_edit_set_currency gce currency =
     (case currency of
        None \<Rightarrow> gce
      | Some c \<Rightarrow>
          if model_rows gce = [] then gce
          else (case set_currency_scan (printname c) (model_rows gce) 0 of
                  Some i \<Rightarrow> gce\<lparr>active := Some i\<rparr>
                | None \<Rightarrow> gce))"

text \<open>
  \<^verbatim>\<open>index(mnemonic, ' ')\<close>: the position of the first occurrence of the character,
  or \<open>None\<close> for the NULL that \<^verbatim>\<open>index\<close> returns when there is none.
\<close>

fun index_chr :: "string \<Rightarrow> char \<Rightarrow> nat option" where
  "index_chr [] ch = None"
| "index_chr (x # xs) ch =
     (if x = ch then Some 0 else map_option Suc (index_chr xs ch))"

definition currency_mnemonic :: "string \<Rightarrow> string" where
  \<comment> \<open>The copy of the display text, cut by \<^verbatim>\<open>*name = '\\0'\<close> at the first space.\<close>
  "currency_mnemonic full =
     (case index_chr full (CHR '' '') of
        None \<Rightarrow> full
      | Some k \<Rightarrow> take k full)"

definition gtk_combo_box_get_active_iter :: "GNCCurrencyEdit \<Rightarrow> nat option" where
  \<comment> \<open>The iterator of the active row; none when the box is inactive or the row is gone.\<close>
  "gtk_combo_box_get_active_iter gce =
     (case active gce of
        None \<Rightarrow> None
      | Some i \<Rightarrow> if i < length (model_rows gce) then Some i else None)"

text \<open>
  \<^verbatim>\<open>gnc_currency_edit_get_currency\<close> returns the warnings it logged and the commodity
  (\<open>None\<close> for the NULL of a failed lookup). \<open>lookup\<close> is
  \<^verbatim>\<open>gnc_commodity_table_lookup\<close> on the current commodity table, called with the
  namespace and the mnemonic; \<open>dflt\<close> is what \<^verbatim>\<open>gnc_locale_default_currency\<close>
  returns.
\<close>

definition gnc_currency_edit_get_currency ::
    "(string \<Rightarrow> string \<Rightarrow> gnc_commodity option) \<Rightarrow> gnc_commodity option
      \<Rightarrow> GNCCurrencyEdit \<Rightarrow> string list \<times> gnc_commodity option" where
  "gnc_currency_edit_get_currency lookup dflt gce =
     (case gtk_combo_box_get_active_iter gce of
        Some i \<Rightarrow>
          (let full = model_rows gce ! i;
               mn = currency_mnemonic full
           in ([], lookup GNC_COMMODITY_NS_ISO mn))
      | None \<Rightarrow>
          ([''Combo box returned 'inactive'. Using locale default currency.''], dflt))"



section \<open>The CSV import dialog (gnc-csv-import.c)\<close>

subsection \<open>The data of the parser module\<close>

text \<open>
  Modelled from the spec: the declarations of the parser module's header, which is not among
  the files. The column types None, Date, Description and Amount, in the order of
  \<^verbatim>\<open>column_type_strs\<close>; the two errors of loading a file, that it cannot be opened
  and that its encoding cannot be guessed; a \<^verbatim>\<open>GError\<close> with the two fields the
  importer reads; a transaction and an account as the pointers they are; and the line of
  \<open>transactions\<close> that carries a transaction.
\<close>

datatype GncCsvColumnType = GNC_CSV_NONE | GNC_CSV_DATE | GNC_CSV_DESCRIPTION | GNC_CSV_AMOUNT

datatype GNC_CSV_ERROR = GNC_CSV_FILE_OPEN_ERR | GNC_CSV_ENCODING_ERR

record GError =
  code :: GNC_CSV_ERROR
  message :: string

type_synonym Transaction = nat

type_synonym Account = nat

record GncCsvTransLine =
  trans :: Transaction

text \<open>
  The separators of the parse options, as \<^verbatim>\<open>stf_parse_options_csv_set_separators\<close>
  stores its two arguments: the separator characters (NULL is \<open>None\<close>) and the list of
  separator strings.
\<close>

record StfParseOptions =
  sep_chr :: "string option"
  sep_str :: "string list"

text \<open>
  Modelled from the spec: the parse data, with the fields that the importer reads or
  writes: the encoding, the parse options, the original lines, the type of each column,
  the indices of the lines that failed, the transactions built, and the date format.
\<close>

record GncCsvParseData =
  encoding :: string
  options :: StfParseOptions
  orig_lines :: "string list list"
  column_types :: "GncCsvColumnType list"
  error_lines :: "nat list"
  transactions :: "GncCsvTransLine list"
  date_format :: int

text \<open>
  The functions of the parser module (gnc-csv-model) that the importer calls; their code is
  not part of these files, so every definition below takes them as the parameter \<open>M\<close>.
  A function that returns non-zero returns \<open>Some\<close> error here, the \<^verbatim>\<open>GError\<close> its
  caller then reads, and \<open>None\<close> when it returns 0; each returns the parse data as it
  left them.
\<close>

record csv_model =
  gnc_csv_new_parse_data :: GncCsvParseData
  gnc_csv_load_file :: "GncCsvParseData \<Rightarrow> string \<Rightarrow> GError option \<times> GncCsvParseData"
  gnc_csv_convert_encoding :: "GncCsvParseData \<Rightarrow> string \<Rightarrow> GError option \<times> GncCsvParseData"
  gnc_csv_parse :: "GncCsvParseData \<Rightarrow> bool \<Rightarrow> GError option \<times> GncCsvParseData"
  gnc_parse_to_trans :: "GncCsvParseData \<Rightarrow> Account \<Rightarrow> bool \<Rightarrow> GncCsvParseData"

subsection \<open>The preview dialog\<close>

definition stock_separator_characters :: "string list" where
  "stock_separator_characters =
     ['' '', [CHR 0x09], '','', '':'', '';'', ''-'']"

fun column_type_strs :: "GncCsvColumnType \<Rightarrow> string" where
  "column_type_strs GNC_CSV_NONE = ''None''"
| "column_type_strs GNC_CSV_DATE = ''Date''"
| "column_type_strs GNC_CSV_DESCRIPTION = ''Description''"
| "column_type_strs GNC_CSV_AMOUNT = ''Amount''"

definition all_column_types :: "GncCsvColumnType list" where
  \<comment> \<open>The values \<^verbatim>\<open>for(type = 0; type < GNC_CSV_NUM_COL_TYPES; type++)\<close> runs through.\<close>
  "all_column_types = [GNC_CSV_NONE, GNC_CSV_DATE, GNC_CSV_DESCRIPTION, GNC_CSV_AMOUNT]"

text \<open>
  \<^verbatim>\<open>GncCsvPreview\<close>. Widgets are their state: a check button is its active flag, the
  entry its text, the encoding selector its encoding, the date-format combo box its active
  index. The data tree view is the store column each of its columns shows and the rows of
  its store; the column-type tree view is the combo renderer of each of its columns and the
  text cells of the one row of its store (store column \<open>2*i+1\<close> is cell \<open>i\<close>). A cell
  renderer is the number it was allocated under, \<open>next_renderer\<close> the next free one.
  \<open>dialog_visible\<close> is the dialog shown or hidden; \<open>error_dialogs\<close> are the messages
  that \<^verbatim>\<open>gnc_error_dialog\<close> has put up from the handlers, oldest first. The gettext
  translation of a string is the string itself.
\<close>

record GncCsvPreview =
  parse_data :: GncCsvParseData
  dialog_visible :: bool
  encselector :: string
  date_format_combo :: int
  treeview_columns :: "nat list"
  treeview_model :: "string list list"
  ctreeview_columns :: "nat list"
  ctreeview_model :: "string list"
  sep_buttons :: "bool list"
  custom_cbutton :: bool
  custom_entry :: string
  encoding_selected_called :: bool
  previewing_errors :: bool
  code_encoding_calls :: int
  approved :: bool
  next_renderer :: nat
  error_dialogs :: "string list"

text \<open>
  What ends a run of a model function other than its return. The C reads out of range:
  through a NULL column pointer, or a cell or line that is not there. Or the handlers were
  still calling one another when the bound on their nesting was reached: a handler that
  sets a widget makes the widget emit its signal, which calls the widget's handler again
  before the first call has returned, and nothing in the C bounds how often. The functions
  in which handlers can nest take the bound as their first argument \<open>depth\<close>, the number
  of handler calls that may be open at a time. A handler that returns under one bound
  returns the same under every greater one (lemmas \<open>sep_button_clicked_mono\<close> and
  \<open>encoding_selected_mono\<close>); a statement that the program returns is a statement about
  every bound from some bound on, and a run that is \<open>NotReturned\<close> under every bound is a
  run that does not return.
\<close>

datatype csv_stop = NullDereference | InvalidRead | NotReturned

text \<open>The widget a separator signal comes from.\<close>

datatype sep_widget = SEP_BUTTON nat | CUSTOM_CBUTTON | CUSTOM_ENTRY

text \<open>
  The rows \<^verbatim>\<open>gnc_csv_preview_treeview\<close> loads when it shows the error lines: line
  \<open>i\<close> of \<open>orig_lines\<close> for each \<open>i\<close> of \<open>error_lines\<close>, in their order. The store
  has \<open>ncols\<close> columns; \<^verbatim>\<open>gtk_list_store_set\<close> turns a cell beyond them away.
\<close>

fun error_rows :: "nat \<Rightarrow> string list list \<Rightarrow> nat list \<Rightarrow> csv_stop + string list list" where
  "error_rows ncols lines [] = Inr []"
| "error_rows ncols lines (i # rest) =
     (if i < length lines then
        (case error_rows ncols lines rest of
           Inl f \<Rightarrow> Inl f
         | Inr rows \<Rightarrow> Inr (take ncols (lines ! i) # rows))
      else Inl InvalidRead)"

text \<open>
  The guard at the head of \<^verbatim>\<open>encoding_selected\<close>, which keeps code-caused calls
  from having an effect: a call that finds \<open>code_encoding_calls\<close> positive counts it down
  and returns.
\<close>

definition code_caused_call :: "GncCsvPreview \<Rightarrow> GncCsvPreview" where
  "code_caused_call preview =
     preview\<lparr>code_encoding_calls := code_encoding_calls preview - 1\<rparr>"

text \<open>
  \<^verbatim>\<open>gnc_csv_preview_treeview\<close>. Near its end it sets \<open>code_encoding_calls\<close> to 2 and
  calls \<^verbatim>\<open>go_charmap_sel_set_encoding\<close>: the selector takes the encoding of the parse
  data and \<^verbatim>\<open>encoding_selected\<close> is called twice, as the comments on
  \<open>code_encoding_calls\<close> and in \<^verbatim>\<open>encoding_selected\<close> say. Both calls find the count
  positive, so each is the guard's count-down and no more (lemma
  \<open>refresh_calls_are_code_caused\<close> below compares them with the handler). The date format
  is stored after that.
\<close>

definition gnc_csv_preview_treeview :: "GncCsvPreview \<Rightarrow> bool \<Rightarrow> csv_stop + GncCsvPreview" where
  "gnc_csv_preview_treeview preview notEmpty =
     (let pd = parse_data preview;
          ncols = length (column_types pd);
          tv_columns = (if notEmpty then [] else treeview_columns preview);
          ctv_columns = (if notEmpty then [] else ctreeview_columns preview);
          store = (if previewing_errors preview
                   then error_rows ncols (orig_lines pd) (error_lines pd)
                   else Inr (map (take ncols) (orig_lines pd)));
          ctstore = map column_type_strs (column_types pd);
          crenderers = [next_renderer preview ..< next_renderer preview + ncols]
      in case store of
           Inl f \<Rightarrow> Inl f
         | Inr rows \<Rightarrow>
             (let preview = preview
                    \<lparr>treeview_columns := tv_columns @ [0 ..< ncols],
                     ctreeview_columns := ctv_columns @ crenderers,
                     treeview_model := rows,
                     ctreeview_model := ctstore,
                     next_renderer := next_renderer preview + ncols,
                     code_encoding_calls := 2,
                     encselector := encoding pd\<rparr>;
                  preview = code_caused_call (code_caused_call preview)
              in Inr (preview\<lparr>parse_data := pd\<lparr>date_format := date_format_combo preview\<rparr>\<rparr>)))"

text \<open>
  \<^verbatim>\<open>sep_button_clicked\<close>. The loop over the six check buttons appends the stock
  separator of each checked one, in the order of the buttons.
\<close>

definition checked_separators :: "GncCsvPreview \<Rightarrow> string list" where
  "checked_separators preview =
     map snd (filter fst (zip (sep_buttons preview) stock_separator_characters))
     @ (if custom_cbutton preview \<and> custom_entry preview \<noteq> [] then [custom_entry preview]
        else [])"

definition set_separators_and_parse ::
    "csv_model \<Rightarrow> GncCsvPreview \<Rightarrow> GError option \<times> GncCsvParseData" where
  \<comment> \<open>\<^verbatim>\<open>stf_parse_options_csv_set_separators(options, NULL, checked_separators)\<close>,
      then \<^verbatim>\<open>gnc_csv_parse(parse_data, FALSE, &error)\<close>.\<close>
  "set_separators_and_parse M preview =
     (let pd = parse_data preview;
          pd = pd\<lparr>options := (options pd)\<lparr>sep_chr := None,
                                          sep_str := checked_separators preview\<rparr>\<rparr>
      in gnc_csv_parse M pd False)"

text \<open>
  A check button going to its other state, under the user's click or under
  \<^verbatim>\<open>gtk_toggle_button_set_active(widget, !gtk_toggle_button_get_active(widget))\<close>.
  Either way the button then emits \<^verbatim>\<open>toggled\<close> and \<^verbatim>\<open>clicked\<close>, the signals
  that \<^verbatim>\<open>gnc_csv_preview_new\<close> connected to \<^verbatim>\<open>sep_button_clicked\<close>.
\<close>

definition toggle_button :: "sep_widget \<Rightarrow> GncCsvPreview \<Rightarrow> GncCsvPreview" where
  "toggle_button widget preview =
     (case widget of
        SEP_BUTTON i \<Rightarrow>
          preview\<lparr>sep_buttons := (sep_buttons preview)[i := \<not> sep_buttons preview ! i]\<rparr>
      | CUSTOM_CBUTTON \<Rightarrow> preview\<lparr>custom_cbutton := \<not> custom_cbutton preview\<rparr>
      | CUSTOM_ENTRY \<Rightarrow> preview)"

text \<open>
  The handler. After the error dialog it undoes what caused the error, and this "will cause
  a reparsing", in the words of its comment: toggling the button back emits the button's
  signal, and \<^verbatim>\<open>gtk_entry_set_text(widget, "")\<close> emits \<^verbatim>\<open>changed\<close> when it changes
  the text, so the handler is called again, for the same widget, before it returns.
\<close>

fun sep_button_clicked ::
    "nat \<Rightarrow> csv_model \<Rightarrow> sep_widget \<Rightarrow> GncCsvPreview \<Rightarrow> csv_stop + GncCsvPreview" where
  "sep_button_clicked 0 M widget preview = Inl NotReturned"
| "sep_button_clicked (Suc depth) M widget preview =
     (let (error, pd) = set_separators_and_parse M preview
      in case error of
           Some e \<Rightarrow>
             (let preview = preview\<lparr>parse_data := pd,
                                     error_dialogs := error_dialogs preview
                                                      @ [''Error in parsing'']\<rparr>
              in if widget = CUSTOM_ENTRY
                 then (if custom_entry preview = [] then Inr preview
                       else sep_button_clicked depth M widget (preview\<lparr>custom_entry := []\<rparr>))
                 else sep_button_clicked depth M widget (toggle_button widget preview))
         | None \<Rightarrow> gnc_csv_preview_treeview (preview\<lparr>parse_data := pd\<rparr>) True)"

text \<open>
  \<^verbatim>\<open>encoding_selected\<close>; the selector it is connected to is the preview's own.
  \<^verbatim>\<open>gnc_csv_parse\<close> is not called when the conversion has failed.
\<close>

definition convert_and_parse ::
    "csv_model \<Rightarrow> string \<Rightarrow> GncCsvParseData \<Rightarrow> GError option \<times> GncCsvParseData" where
  \<comment> \<open>\<^verbatim>\<open>gnc_csv_convert_encoding(...) || gnc_csv_parse(parse_data, FALSE, &error)\<close>\<close>
  "convert_and_parse M enc pd =
     (let (error, pd) = gnc_csv_convert_encoding M pd enc
      in if error \<noteq> None then (error, pd) else gnc_csv_parse M pd False)"

text \<open>
  The handler, and the selector changing to an encoding, under the user's choice or under
  \<^verbatim>\<open>go_charmap_sel_set_encoding\<close>: the selector emits \<^verbatim>\<open>charmap_changed\<close> and
  \<^verbatim>\<open>encoding_selected\<close> "gets called twice", with the encoding. The handler's failure
  path sets the selector back with \<open>code_encoding_calls\<close> left at 0, so the two calls that
  this causes are not stopped by the guard: the first sets the flag, the second converts
  back to the previous encoding and parses again.
\<close>

fun encoding_selected ::
    "nat \<Rightarrow> csv_model \<Rightarrow> string \<Rightarrow> GncCsvPreview \<Rightarrow> csv_stop + GncCsvPreview"
and go_charmap_sel_set_encoding ::
    "nat \<Rightarrow> csv_model \<Rightarrow> string \<Rightarrow> GncCsvPreview \<Rightarrow> csv_stop + GncCsvPreview" where
  "encoding_selected 0 M enc preview = Inl NotReturned"
| "encoding_selected (Suc depth) M enc preview =
     (if code_encoding_calls preview > 0 then Inr (code_caused_call preview)
      else if encoding_selected_called preview then
        (let previous_encoding = encoding (parse_data preview);
             (error, pd) = convert_and_parse M enc (parse_data preview)
         in if error \<noteq> None
            then go_charmap_sel_set_encoding depth M previous_encoding
                   (preview\<lparr>parse_data := pd,
                            error_dialogs := error_dialogs preview
                                             @ [''Invalid encoding selected''],
                            encoding_selected_called := False\<rparr>)
            else (case gnc_csv_preview_treeview (preview\<lparr>parse_data := pd\<rparr>) True of
                    Inl f \<Rightarrow> Inl f
                  | Inr preview \<Rightarrow> Inr (preview\<lparr>encoding_selected_called := False\<rparr>)))
      else Inr (preview\<lparr>encoding_selected_called := True\<rparr>))"
| "go_charmap_sel_set_encoding depth M enc preview =
     (case encoding_selected depth M enc (preview\<lparr>encselector := enc\<rparr>) of
        Inl f \<Rightarrow> Inl f
      | Inr preview \<Rightarrow> encoding_selected depth M enc preview)"

definition date_format_selected :: "GncCsvPreview \<Rightarrow> GncCsvPreview" where
  "date_format_selected preview =
     preview\<lparr>parse_data := (parse_data preview)\<lparr>date_format := date_format_combo preview\<rparr>\<rparr>"


text \<open>
  \<^verbatim>\<open>ok_button_clicked\<close>: for each column the first column type whose string is the
  text of the column's cell is stored in \<open>column_types\<close>; a text that is no type's string
  leaves the entry as it was.
\<close>

fun type_of_string :: "string \<Rightarrow> GncCsvColumnType list \<Rightarrow> GncCsvColumnType option" where
  "type_of_string contents [] = None"
| "type_of_string contents (ty # rest) =
     (if contents = column_type_strs ty then Some ty else type_of_string contents rest)"

fun ok_button_loop :: "nat list \<Rightarrow> GncCsvPreview \<Rightarrow> csv_stop + GncCsvPreview" where
  "ok_button_loop [] preview = Inr preview"
| "ok_button_loop (i # rest) preview =
     (if i < length (ctreeview_model preview) then
        (case type_of_string (ctreeview_model preview ! i) all_column_types of
           Some ty \<Rightarrow>
             ok_button_loop rest
               (preview\<lparr>parse_data := (parse_data preview)
                  \<lparr>column_types := (column_types (parse_data preview))[i := ty]\<rparr>\<rparr>)
         | None \<Rightarrow> ok_button_loop rest preview)
      else Inl InvalidRead)"

definition ok_button_clicked :: "GncCsvPreview \<Rightarrow> csv_stop + GncCsvPreview" where
  "ok_button_clicked preview =
     (case ok_button_loop [0 ..< length (column_types (parse_data preview))] preview of
        Inl f \<Rightarrow> Inl f
      | Inr preview \<Rightarrow> Inr (preview\<lparr>dialog_visible := False, approved := True\<rparr>))"

definition cancel_button_clicked :: "GncCsvPreview \<Rightarrow> GncCsvPreview" where
  "cancel_button_clicked preview = preview\<lparr>dialog_visible := False\<rparr>"

text \<open>
  \<^verbatim>\<open>column_type_edited\<close>: the loop over the columns \<open>0 ..< ncols\<close>. Column \<open>i\<close> of
  the column-type tree view that is not there is a NULL column, whose renderer list is
  NULL and is read; \<^verbatim>\<open>gtk_list_store_set\<close> on a store column that is not there
  changes nothing, as \<open>list_update\<close> does.
\<close>

fun column_type_edited_loop ::
    "nat \<Rightarrow> string \<Rightarrow> nat list \<Rightarrow> GncCsvPreview \<Rightarrow> csv_stop + GncCsvPreview" where
  "column_type_edited_loop renderer new_text [] preview = Inr preview"
| "column_type_edited_loop renderer new_text (i # rest) preview =
     (if i < length (ctreeview_columns preview) then
        (if ctreeview_columns preview ! i \<noteq> renderer then
           (if i < length (ctreeview_model preview) then
              (if ctreeview_model preview ! i = new_text
               then column_type_edited_loop renderer new_text rest
                      (preview\<lparr>ctreeview_model :=
                         (ctreeview_model preview)[i := column_type_strs GNC_CSV_NONE]\<rparr>)
               else column_type_edited_loop renderer new_text rest preview)
            else Inl InvalidRead)
         else column_type_edited_loop renderer new_text rest
                (preview\<lparr>ctreeview_model := (ctreeview_model preview)[i := new_text]\<rparr>))
      else Inl NullDereference)"

definition column_type_edited ::
    "nat \<Rightarrow> string \<Rightarrow> GncCsvPreview \<Rightarrow> csv_stop + GncCsvPreview" where
  "column_type_edited renderer new_text preview =
     column_type_edited_loop renderer new_text
       [0 ..< length (column_types (parse_data preview))] preview"

text \<open>
  \<^verbatim>\<open>gnc_csv_preview_new\<close>. \<open>glade\<close> is the dialog as the Glade file describes it and
  the memory \<^verbatim>\<open>g_new\<close> returned: the constructor sets the date-format combo box to
  its first entry and clears \<open>encoding_selected_called\<close>, and leaves \<open>parse_data\<close>,
  \<open>previewing_errors\<close>, \<open>code_encoding_calls\<close> and \<open>approved\<close> as they were.
\<close>

definition gnc_csv_preview_new :: "GncCsvPreview \<Rightarrow> GncCsvPreview" where
  "gnc_csv_preview_new glade =
     glade\<lparr>date_format_combo := 0, encoding_selected_called := False\<rparr>"

subsection \<open>The user at the dialog\<close>

text \<open>
  What the user does while \<^verbatim>\<open>gtk_dialog_run\<close> waits, and the handler that
  \<^verbatim>\<open>gnc_csv_preview_new\<close> and \<^verbatim>\<open>gnc_csv_preview_treeview\<close> connected to it. The
  widget has changed when its handler runs: a click on a check button toggles it, typing
  changes the text of the entry (text equal to the one it holds is no change and no
  signal), and a choice in the encoding selector changes the selector, which calls
  \<^verbatim>\<open>encoding_selected\<close> twice. A column type is edited through the renderer of a
  column of the column-type tree view.
\<close>

datatype user_event =
    ToggleSeparator nat
  | ToggleCustomSeparator
  | EditCustomSeparator string
  | SelectEncoding string
  | SelectDateFormat int
  | EditColumnType nat string
  | ClickOK
  | ClickCancel

fun handle_event ::
    "nat \<Rightarrow> csv_model \<Rightarrow> user_event \<Rightarrow> GncCsvPreview \<Rightarrow> csv_stop + GncCsvPreview" where
  "handle_event depth M (ToggleSeparator i) preview =
     (if i < length (sep_buttons preview)
      then sep_button_clicked depth M (SEP_BUTTON i) (toggle_button (SEP_BUTTON i) preview)
      else Inr preview)"
| "handle_event depth M ToggleCustomSeparator preview =
     sep_button_clicked depth M CUSTOM_CBUTTON (toggle_button CUSTOM_CBUTTON preview)"
| "handle_event depth M (EditCustomSeparator sep) preview =
     (if custom_entry preview = sep then Inr preview
      else sep_button_clicked depth M CUSTOM_ENTRY (preview\<lparr>custom_entry := sep\<rparr>))"
| "handle_event depth M (SelectEncoding enc) preview =
     go_charmap_sel_set_encoding depth M enc preview"
| "handle_event depth M (SelectDateFormat k) preview =
     Inr (date_format_selected (preview\<lparr>date_format_combo := k\<rparr>))"
| "handle_event depth M (EditColumnType col new_text) preview =
     (if col < length (ctreeview_columns preview)
      then column_type_edited (ctreeview_columns preview ! col) new_text preview
      else Inr preview)"
| "handle_event depth M ClickOK preview = ok_button_clicked preview"
| "handle_event depth M ClickCancel preview = Inr (cancel_button_clicked preview)"

text \<open>
  \<^verbatim>\<open>gtk_dialog_run\<close> on the events of one sitting at the dialog: it returns once a
  handler has hidden the dialog, or when the events have run out, which is the user
  closing the window.
\<close>

fun dialog_events ::
    "nat \<Rightarrow> csv_model \<Rightarrow> user_event list \<Rightarrow> GncCsvPreview \<Rightarrow> csv_stop + GncCsvPreview" where
  "dialog_events depth M [] preview = Inr preview"
| "dialog_events depth M (ev # rest) preview =
     (case handle_event depth M ev preview of
        Inl f \<Rightarrow> Inl f
      | Inr preview \<Rightarrow>
          if dialog_visible preview then dialog_events depth M rest preview else Inr preview)"

definition gtk_dialog_run ::
    "nat \<Rightarrow> csv_model \<Rightarrow> user_event list \<Rightarrow> GncCsvPreview \<Rightarrow> csv_stop + GncCsvPreview" where
  "gtk_dialog_run depth M events preview =
     dialog_events depth M events (preview\<lparr>dialog_visible := True\<rparr>)"

definition gnc_csv_preview ::
    "nat \<Rightarrow> csv_model \<Rightarrow> user_event list \<Rightarrow> GncCsvPreview \<Rightarrow> GncCsvParseData
      \<Rightarrow> csv_stop + int \<times> GncCsvPreview" where
  "gnc_csv_preview depth M events preview pd =
     (let preview = preview\<lparr>parse_data := pd, previewing_errors := False, approved := False\<rparr>
      in case gnc_csv_preview_treeview preview False of
           Inl f \<Rightarrow> Inl f
         | Inr preview \<Rightarrow>
             (case gtk_dialog_run depth M events preview of
                Inl f \<Rightarrow> Inl f
              | Inr preview \<Rightarrow> Inr (if approved preview then 0 else 1, preview)))"

definition gnc_csv_preview_errors ::
    "nat \<Rightarrow> csv_model \<Rightarrow> user_event list \<Rightarrow> GncCsvPreview
      \<Rightarrow> csv_stop + int \<times> GncCsvPreview" where
  \<comment> \<open>The instructions label and image that it changes first are not part of the state.\<close>
  "gnc_csv_preview_errors depth M events preview =
     (let preview = preview\<lparr>previewing_errors := True, approved := False\<rparr>
      in case gnc_csv_preview_treeview preview True of
           Inl f \<Rightarrow> Inl f
         | Inr preview \<Rightarrow>
             (case gtk_dialog_run depth M events preview of
                Inl f \<Rightarrow> Inl f
              | Inr preview \<Rightarrow> Inr (if approved preview then 0 else 1, preview)))"


subsection \<open>The import (\<^verbatim>\<open>gnc_file_csv_import\<close>)\<close>

text \<open>
  What the import does to the world outside the preview, in order: the error dialogs it
  puts up itself, its calls of \<^verbatim>\<open>gnc_parse_to_trans\<close> (with \<^verbatim>\<open>redo_errors\<close>),
  its calls to the generic transaction importer (\<^verbatim>\<open>gnc_gen_trans_list_new\<close>,
  \<^verbatim>\<open>_add_trans\<close>, \<^verbatim>\<open>_run\<close>, \<^verbatim>\<open>_delete\<close>), and the frees of the preview
  and of the parse data. The default directory it remembers and the file name it frees are
  left out.
\<close>

datatype import_effect =
    ErrorDialog string
  | ParseToTrans bool
  | TransListNew
  | TransListAddTrans Transaction
  | TransListRun
  | TransListDelete
  | PreviewFree
  | ParseDataFree

text \<open>
  One run of the import from the outside: the file the user picks in the file dialog
  (\<open>None\<close> when the dialog is cancelled), the dialog of the Glade file, what the user does
  at the preview of all lines, the account picked (\<open>None\<close> when that is cancelled), and
  what the user does at each showing of the error lines. A showing past the end of
  \<open>error_events\<close> is closed by the user at once.
\<close>

record import_run =
  selected_filename :: "string option"
  glade_dialog :: GncCsvPreview
  preview_events :: "user_event list"
  selected_account :: "Account option"
  error_events :: "user_event list list"

text \<open>The body of the \<^verbatim>\<open>while\<close> loop: show the error lines, then build again.\<close>

definition error_round ::
    "nat \<Rightarrow> csv_model \<Rightarrow> Account \<Rightarrow> user_event list \<Rightarrow> import_effect list \<times> GncCsvPreview
      \<Rightarrow> csv_stop + int \<times> import_effect list \<times> GncCsvPreview" where
  "error_round depth M account events st =
     (case gnc_csv_preview_errors depth M events (snd st) of
        Inl f \<Rightarrow> Inl f
      | Inr (user_canceled, preview) \<Rightarrow>
          Inr (user_canceled, fst st @ [ParseToTrans True],
               preview\<lparr>parse_data := gnc_parse_to_trans M (parse_data preview) account True\<rparr>))"

text \<open>
  \<^verbatim>\<open>while(!((parse_data->error_lines == NULL) || user_canceled))\<close>. With no events
  left the showing is closed, which is a cancel, so the loop ends after that round.
\<close>

fun correct_errors ::
    "nat \<Rightarrow> csv_model \<Rightarrow> Account \<Rightarrow> user_event list list \<Rightarrow> int
      \<Rightarrow> import_effect list \<times> GncCsvPreview
      \<Rightarrow> csv_stop + int \<times> import_effect list \<times> GncCsvPreview" where
  "correct_errors depth M account [] user_canceled st =
     (if error_lines (parse_data (snd st)) = [] \<or> user_canceled \<noteq> 0
      then Inr (user_canceled, st)
      else error_round depth M account [] st)"
| "correct_errors depth M account (events # later) user_canceled st =
     (if error_lines (parse_data (snd st)) = [] \<or> user_canceled \<noteq> 0
      then Inr (user_canceled, st)
      else (case error_round depth M account events st of
              Inl f \<Rightarrow> Inl f
            | Inr (user_canceled, st) \<Rightarrow>
                correct_errors depth M account later user_canceled st))"

definition hand_off :: "GncCsvParseData \<Rightarrow> import_effect list" where
  \<comment> \<open>From \<^verbatim>\<open>gnc_gen_trans_list_new\<close> to the run or the delete of the importer.\<close>
  "hand_off pd =
     TransListNew # map (\<lambda>trans_line. TransListAddTrans (trans trans_line)) (transactions pd)
     @ [if transactions pd \<noteq> [] then TransListRun else TransListDelete]"

definition report :: "GError option \<Rightarrow> import_effect list" where
  \<comment> \<open>\<^verbatim>\<open>gnc_error_dialog(NULL, "%s", error->message)\<close> when the call returned non-zero.\<close>
  "report error = (case error of Some e \<Rightarrow> [ErrorDialog (message e)] | None \<Rightarrow> [])"

definition import_loaded ::
    "nat \<Rightarrow> csv_model \<Rightarrow> import_run \<Rightarrow> GncCsvParseData \<Rightarrow> import_effect list
      \<Rightarrow> csv_stop + import_effect list" where
  \<comment> \<open>\<^verbatim>\<open>gnc_file_csv_import\<close> from its first \<^verbatim>\<open>gnc_csv_parse\<close> on.\<close>
  "import_loaded depth M run pd effects =
     (let (error, pd) = gnc_csv_parse M pd True;
          effects = effects @ report error;
          preview = gnc_csv_preview_new (glade_dialog run)
      in case gnc_csv_preview depth M (preview_events run) preview pd of
           Inl f \<Rightarrow> Inl f
         | Inr (not_approved, preview) \<Rightarrow>
             if not_approved \<noteq> 0 then Inr (effects @ [PreviewFree, ParseDataFree])
             else (case selected_account run of
                     None \<Rightarrow> Inr (effects @ [PreviewFree, ParseDataFree])
                   | Some account \<Rightarrow>
                       (let preview = preview\<lparr>parse_data :=
                                gnc_parse_to_trans M (parse_data preview) account False\<rparr>;
                            effects = effects @ [ParseToTrans False]
                        in case correct_errors depth M account (error_events run) 0
                                  (effects, preview) of
                             Inl f \<Rightarrow> Inl f
                           | Inr (user_canceled, effects, preview) \<Rightarrow>
                               Inr (effects @ hand_off (parse_data preview)
                                    @ [PreviewFree, ParseDataFree]))))"

definition gnc_file_csv_import ::
    "nat \<Rightarrow> csv_model \<Rightarrow> import_run \<Rightarrow> csv_stop + import_effect list" where
  "gnc_file_csv_import depth M run =
     (case selected_filename run of
        None \<Rightarrow> Inr []
      | Some filename \<Rightarrow>
          (let pd = gnc_csv_new_parse_data M;
               (error, pd) = gnc_csv_load_file M pd filename
           in case error of
                Some e \<Rightarrow>
                  if code e = GNC_CSV_FILE_OPEN_ERR
                  then Inr [ErrorDialog (message e), ParseDataFree]
                  else import_loaded depth M run pd [ErrorDialog (message e)]
              | None \<Rightarrow> import_loaded depth M run pd []))"

subsection \<open>Notions the statements use\<close>

text \<open>
  The text that \<^verbatim>\<open>column_type_edited\<close> leaves in the cell of column \<open>i\<close>, given the
  renderers and the cells before the edit.
\<close>

definition edited_cell :: "nat \<Rightarrow> string \<Rightarrow> nat list \<Rightarrow> string list \<Rightarrow> nat \<Rightarrow> string" where
  "edited_cell renderer new_text cols cells i =
     (if cols ! i \<noteq> renderer
      then (if cells ! i = new_text then column_type_strs GNC_CSV_NONE else cells ! i)
      else new_text)"

text \<open>No two cells hold the same text other than \<^verbatim>\<open>None\<close>.\<close>

definition types_apart :: "string list \<Rightarrow> bool" where
  "types_apart cells = distinct (filter (\<lambda>s. s \<noteq> column_type_strs GNC_CSV_NONE) cells)"

text \<open>
  The load error after which the import gives up, and a sitting at the dialog in which the
  user does not press OK before pressing Cancel or closing the window.
\<close>

definition load_is_fatal :: "GError option \<Rightarrow> bool" where
  "load_is_fatal error =
     (case error of Some e \<Rightarrow> code e = GNC_CSV_FILE_OPEN_ERR | None \<Rightarrow> False)"

definition no_ok_before_cancel :: "user_event list \<Rightarrow> bool" where
  "no_ok_before_cancel events = (ClickOK \<notin> set (takeWhile (\<lambda>ev. ev \<noteq> ClickCancel) events))"

text \<open>An effect that is an error dialog and nothing else.\<close>

fun is_error_dialog :: "import_effect \<Rightarrow> bool" where
  "is_error_dialog (ErrorDialog m) = True"
| "is_error_dialog eff = False"




text \<open>
  The states that a failed separator change passes through. \<open>parse_failed\<close> is the dialog
  once the reparse of its separators has failed and \<^verbatim>\<open>sep_button_clicked\<close> has put up
  its error dialog: the parse data are what the parser left. \<open>toggled_back\<close> is the dialog
  once the user has toggled a check button, the reparse has failed and the handler has
  toggled the button back; \<open>text_erased\<close> the dialog once the user has changed the custom
  text, the reparse has failed and the handler has erased the text. \<open>reparsed\<close> is what
  the handler does when its reparse succeeds: the refresh from the parse data as parsed.
\<close>

definition parse_failed :: "csv_model \<Rightarrow> GncCsvPreview \<Rightarrow> GncCsvPreview" where
  "parse_failed M preview =
     preview\<lparr>parse_data := snd (set_separators_and_parse M preview),
              error_dialogs := error_dialogs preview @ [''Error in parsing'']\<rparr>"




section \<open>Concrete data to run the model on\<close>

text \<open>A small commodity table: three ISO currencies and a share.\<close>

definition usd :: gnc_commodity where
  "usd = \<lparr>cm_namespace = ''ISO4217'', mnemonic = ''USD'', fullname = ''US Dollar'',
          printname = ''USD (US Dollar)''\<rparr>"

definition eur :: gnc_commodity where
  "eur = \<lparr>cm_namespace = ''ISO4217'', mnemonic = ''EUR'', fullname = ''Euro'',
          printname = ''EUR (Euro)''\<rparr>"

definition xau :: gnc_commodity where
  "xau = \<lparr>cm_namespace = ''ISO4217'', mnemonic = ''XAU'', fullname = [],
          printname = ''XAU''\<rparr>"

definition acme :: gnc_commodity where
  "acme = \<lparr>cm_namespace = ''NASDAQ'', mnemonic = ''ACME'', fullname = ''Acme Corp'',
          printname = ''ACME (Acme Corp)''\<rparr>"

definition demo_table :: "gnc_commodity list" where
  "demo_table = [usd, acme, eur, xau]"


text \<open>
  A parser module small enough to evaluate. It cannot open \<^verbatim>\<open>missing.csv\<close> and cannot
  guess the encoding of \<^verbatim>\<open>binary.csv\<close>; it converts to every encoding but UTF-16 and
  records the encoding it converted to; parsing fails on text converted to EBCDIC, on the
  colon as a separator and on a separator of more than one character, and otherwise yields
  two lines of three columns; building transactions reads the second line's date only
  under date format 1.
\<close>

definition demo_lines :: "string list list" where
  "demo_lines = [[''2007-06-01'', ''Groceries'', ''-42.50''],
                 [''06/02/2007'', ''Salary'', ''1500.00'']]"

definition demo_new :: GncCsvParseData where
  "demo_new = \<lparr>encoding = [], options = \<lparr>sep_chr = None, sep_str = ['','']\<rparr>,
               orig_lines = [], column_types = [], error_lines = [], transactions = [],
               date_format = 0\<rparr>"

definition demo_load :: "GncCsvParseData \<Rightarrow> string \<Rightarrow> GError option \<times> GncCsvParseData" where
  "demo_load pd filename =
     (if filename = ''missing.csv''
      then (Some \<lparr>code = GNC_CSV_FILE_OPEN_ERR, message = ''File opening failed.''\<rparr>, pd)
      else if filename = ''binary.csv''
      then (Some \<lparr>code = GNC_CSV_ENCODING_ERR, message = ''Unknown encoding.''\<rparr>, pd)
      else (None, pd\<lparr>encoding := ''UTF-8''\<rparr>))"

definition demo_convert :: "GncCsvParseData \<Rightarrow> string \<Rightarrow> GError option \<times> GncCsvParseData" where
  "demo_convert pd enc =
     (if enc = ''UTF-16''
      then (Some \<lparr>code = GNC_CSV_ENCODING_ERR, message = ''Conversion failed.''\<rparr>, pd)
      else (None, pd\<lparr>encoding := enc\<rparr>))"

definition demo_parse :: "GncCsvParseData \<Rightarrow> bool \<Rightarrow> GError option \<times> GncCsvParseData" where
  "demo_parse pd guessColTypes =
     (if encoding pd = ''EBCDIC''
         \<or> list_ex (\<lambda>sep. sep = '':'' \<or> 1 < length sep) (sep_str (options pd))
      then (Some \<lparr>code = GNC_CSV_ENCODING_ERR, message = ''Parsing failed.''\<rparr>, pd)
      else (None, pd\<lparr>orig_lines := demo_lines,
                       column_types := (if guessColTypes then replicate 3 GNC_CSV_NONE
                                        else column_types pd)\<rparr>))"

definition demo_to_trans :: "GncCsvParseData \<Rightarrow> Account \<Rightarrow> bool \<Rightarrow> GncCsvParseData" where
  "demo_to_trans pd account redo_errors =
     (if date_format pd = 1
      then pd\<lparr>error_lines := [], transactions := [\<lparr>trans = 100\<rparr>, \<lparr>trans = 101\<rparr>]\<rparr>
      else pd\<lparr>error_lines := [1], transactions := [\<lparr>trans = 100\<rparr>]\<rparr>)"

definition demo_model :: csv_model where
  "demo_model = \<lparr>gnc_csv_new_parse_data = demo_new, gnc_csv_load_file = demo_load,
                 gnc_csv_convert_encoding = demo_convert, gnc_csv_parse = demo_parse,
                 gnc_parse_to_trans = demo_to_trans\<rparr>"

text \<open>
  The dialog before the first preview: the comma is checked, nothing is shown, and the
  fields the constructor does not set hold whatever was in memory.
\<close>

definition demo_glade :: GncCsvPreview where
  "demo_glade = \<lparr>parse_data = demo_new, dialog_visible = False, encselector = ''ASCII'',
     date_format_combo = 3, treeview_columns = [], treeview_model = [],
     ctreeview_columns = [], ctreeview_model = [],
     sep_buttons = [False, False, True, False, False, False], custom_cbutton = False,
     custom_entry = [], encoding_selected_called = True, previewing_errors = True,
     code_encoding_calls = 7, approved = True, next_renderer = 0, error_dialogs = []\<rparr>"

text \<open>The dialog as the first preview of \<^verbatim>\<open>data.csv\<close> shows it.\<close>

definition demo_parsed :: GncCsvParseData where
  "demo_parsed = snd (demo_parse (snd (demo_load demo_new ''data.csv'')) True)"

definition demo_preview :: GncCsvPreview where
  "demo_preview =
     (case gnc_csv_preview_treeview
             ((gnc_csv_preview_new demo_glade)
                \<lparr>parse_data := demo_parsed, previewing_errors := False, approved := False\<rparr>)
             False of
        Inr preview \<Rightarrow> preview\<lparr>dialog_visible := True\<rparr>
      | Inl f \<Rightarrow> demo_glade)"


definition demo_stale :: GncCsvPreview where
  "demo_stale = demo_preview\<lparr>date_format_combo := 3, encoding_selected_called := True,
     parse_data := (parse_data demo_preview)\<lparr>date_format := 5\<rparr>\<rparr>"

text \<open>
  A parser module that converts as \<open>demo_model\<close> does and never parses, and the dialog it
  leaves at the first preview of \<^verbatim>\<open>data.csv\<close>: the file was loaded as UTF-8, the first
  parse failed, which the import reports and goes on from, and no line is shown.
\<close>

definition demo_unparsable :: csv_model where
  "demo_unparsable = demo_model
     \<lparr>gnc_csv_parse := (\<lambda>pd guessColTypes.
        (Some \<lparr>code = GNC_CSV_ENCODING_ERR, message = ''Parsing failed.''\<rparr>, pd))\<rparr>"

definition demo_blank :: GncCsvPreview where
  "demo_blank =
     (case gnc_csv_preview_treeview
             ((gnc_csv_preview_new demo_glade)
                \<lparr>parse_data := snd (gnc_csv_parse demo_unparsable
                                       (snd (demo_load demo_new ''data.csv'')) True),
                 previewing_errors := False, approved := False\<rparr>)
             False of
        Inr preview \<Rightarrow> preview\<lparr>dialog_visible := True\<rparr>
      | Inl f \<Rightarrow> demo_glade)"


text \<open>The first preview after the user has made column 0 the date and column 2 the amount.\<close>

definition demo_typed :: GncCsvPreview where
  "demo_typed =
     (case dialog_events 4 demo_model [EditColumnType 0 ''Date'', EditColumnType 2 ''Amount'']
             demo_preview of
        Inr preview \<Rightarrow> preview
      | Inl f \<Rightarrow> demo_glade)"

text \<open>Runs of the import on \<open>demo_model\<close>.\<close>

definition demo_run :: import_run where
  "demo_run = \<lparr>selected_filename = Some ''data.csv'', glade_dialog = demo_glade,
     preview_events = [EditColumnType 0 ''Date'', EditColumnType 2 ''Amount'', ClickOK],
     selected_account = Some 5,
     error_events = [[ClickOK], [SelectDateFormat 1, ClickOK]]\<rparr>"


definition demo_cancels :: import_run where
  "demo_cancels = demo_run\<lparr>selected_filename := Some ''binary.csv'',
     preview_events := [ToggleSeparator 0, ClickCancel, ClickOK]\<rparr>"

definition demo_missing :: import_run where
  "demo_missing = demo_run\<lparr>selected_filename := Some ''missing.csv''\<rparr>"

definition demo_binary :: import_run where
  "demo_binary = demo_run\<lparr>selected_filename := Some ''binary.csv''\<rparr>"


section \<open>The currency editor: what was proved\<close>

lemma set_currency_scan_None: "(set_currency_scan pn rows i = None) = (pn \<notin> set rows)"
  by (induction rows arbitrary: i) auto

lemma set_currency_scan_Some:
  "set_currency_scan pn rows i = Some k \<Longrightarrow>
     i \<le> k \<and> k - i < length rows \<and> rows ! (k - i) = pn \<and> (\<forall>j < k - i. rows ! j \<noteq> pn)"
proof (induction rows arbitrary: i)
  case Nil
  then show ?case by simp
next
  case (Cons r rows)
  show ?case
  proof (cases "pn = r")
    case True
    with Cons.prems show ?thesis by simp
  next
    case False
    with Cons.prems have s: "set_currency_scan pn rows (Suc i) = Some k" by simp
    from Cons.IH [OF s] have ih: "Suc i \<le> k" "k - Suc i < length rows"
      "rows ! (k - Suc i) = pn" "\<forall>j < k - Suc i. rows ! j \<noteq> pn" by auto
    from ih(1) have e: "k - i = Suc (k - Suc i)" by arith
    have "\<forall>j < k - i. (r # rows) ! j \<noteq> pn"
    proof (intro allI impI)
      fix j assume "j < k - i"
      then show "(r # rows) ! j \<noteq> pn"
        using False ih(4) e by (cases j) auto
    qed
    then show ?thesis using ih e by auto
  qed
qed

lemma set_currency_empty:
  "model_rows gce = [] \<Longrightarrow> gnc_currency_edit_set_currency gce (Some c) = gce"
  by (simp add: gnc_currency_edit_set_currency_def)

lemma set_currency_absent:
  assumes "printname c \<notin> set (model_rows gce)"
  shows "gnc_currency_edit_set_currency gce (Some c) = gce"
proof -
  from assms have "set_currency_scan (printname c) (model_rows gce) 0 = None"
    by (simp add: set_currency_scan_None)
  then show ?thesis by (simp add: gnc_currency_edit_set_currency_def)
qed

lemma set_currency_present:
  assumes m: "printname c \<in> set (model_rows gce)"
  shows "\<exists>i < length (model_rows gce).
           gnc_currency_edit_set_currency gce (Some c) = gce\<lparr>active := Some i\<rparr>
           \<and> model_rows gce ! i = printname c
           \<and> (\<forall>j < i. model_rows gce ! j \<noteq> printname c)"
proof -
  from m have "set_currency_scan (printname c) (model_rows gce) 0 \<noteq> None"
    by (simp add: set_currency_scan_None)
  then obtain k where k: "set_currency_scan (printname c) (model_rows gce) 0 = Some k"
    by auto
  from set_currency_scan_Some [OF k]
  have p: "k < length (model_rows gce)" "model_rows gce ! k = printname c"
    "\<forall>j < k. model_rows gce ! j \<noteq> printname c" by auto
  from m have ne: "model_rows gce \<noteq> []" by auto
  have "gnc_currency_edit_set_currency gce (Some c) = gce\<lparr>active := Some k\<rparr>"
    using k ne by (simp add: gnc_currency_edit_set_currency_def)
  with p show ?thesis by blast
qed

lemma index_chr_None: "(index_chr s ch = None) = (ch \<notin> set s)"
  by (induction s) auto

lemma index_chr_Some:
  "index_chr s ch = Some k \<Longrightarrow> take k s = takeWhile (\<lambda>x. x \<noteq> ch) s"
  by (induction s arbitrary: k) (auto split: if_splits)

lemma takeWhile_absent: "ch \<notin> set s \<Longrightarrow> takeWhile (\<lambda>x. x \<noteq> ch) s = s"
  by (induction s) auto

lemma currency_mnemonic_takeWhile:
  "currency_mnemonic full = takeWhile (\<lambda>x. x \<noteq> CHR '' '') full"
proof (cases "index_chr full (CHR '' '')")
  case None
  then have "CHR '' '' \<notin> set full" by (simp add: index_chr_None)
  then have tw: "takeWhile (\<lambda>x. x \<noteq> CHR '' '') full = full"
    by (rule takeWhile_absent)
  from None have cm: "currency_mnemonic full = full" by (simp add: currency_mnemonic_def)
  show ?thesis by (simp only: cm tw)
next
  case (Some k)
  then show ?thesis by (simp add: currency_mnemonic_def index_chr_Some)
qed

lemma get_currency_active:
  "gtk_combo_box_get_active_iter gce = Some i \<Longrightarrow>
     snd (gnc_currency_edit_get_currency lookup dflt gce)
       = lookup GNC_COMMODITY_NS_ISO (currency_mnemonic (model_rows gce ! i))"
  by (simp add: gnc_currency_edit_get_currency_def Let_def)

lemma demo_rows:
  "model_rows (gnc_currency_edit_new demo_table)
     = [''EUR (Euro)'', ''USD (US Dollar)'', ''XAU'']"
  by code_simp






text \<open>
  Claim C6. \<^verbatim>\<open>gnc_currency_edit_set_currency\<close> scans the list from its first row for a
  row equal to the commodity's print name. On an empty list it changes nothing; when no row
  matches it changes nothing, so the active row stays what it was; when a row matches, the
  first such row becomes the active one and nothing else changes.
\<close>

theorem set_currency_linear_scan:
  "(model_rows gce = [] \<longrightarrow> gnc_currency_edit_set_currency gce (Some c) = gce)
   \<and> (printname c \<notin> set (model_rows gce) \<longrightarrow>
        gnc_currency_edit_set_currency gce (Some c) = gce)
   \<and> (printname c \<in> set (model_rows gce) \<longrightarrow>
        (\<exists>i < length (model_rows gce).
           gnc_currency_edit_set_currency gce (Some c) = gce\<lparr>active := Some i\<rparr>
           \<and> model_rows gce ! i = printname c
           \<and> (\<forall>j < i. model_rows gce ! j \<noteq> printname c)))"
  using set_currency_empty [of gce c] set_currency_absent [of c gce]
    set_currency_present [of c gce]
  by blast

theorem set_currency_linear_scan_witness:
  "model_rows \<lparr>model_rows = [], active = Some 7\<rparr> = []
   \<and> gnc_currency_edit_set_currency \<lparr>model_rows = [], active = Some 7\<rparr> (Some usd)
       = \<lparr>model_rows = [], active = Some 7\<rparr>
   \<and> printname acme \<notin> set (model_rows ((gnc_currency_edit_new demo_table)\<lparr>active := Some 2\<rparr>))
   \<and> gnc_currency_edit_set_currency ((gnc_currency_edit_new demo_table)\<lparr>active := Some 2\<rparr>)
         (Some acme) = (gnc_currency_edit_new demo_table)\<lparr>active := Some 2\<rparr>
   \<and> printname usd \<in> set (model_rows (gnc_currency_edit_new demo_table))
   \<and> gnc_currency_edit_set_currency (gnc_currency_edit_new demo_table) (Some usd)
       = (gnc_currency_edit_new demo_table)\<lparr>active := Some 1\<rparr>"
proof -
  have a: "printname acme = ''ACME (Acme Corp)''" and u: "printname usd = ''USD (US Dollar)''"
    by (simp_all add: acme_def usd_def)
  note t1 = set_currency_linear_scan [of "\<lparr>model_rows = [], active = Some 7\<rparr>" usd]
  note t2 = set_currency_linear_scan
    [of "(gnc_currency_edit_new demo_table)\<lparr>active := Some 2\<rparr>" acme]
  note t3 = set_currency_linear_scan [of "gnc_currency_edit_new demo_table" usd]
  have c1: "gnc_currency_edit_set_currency \<lparr>model_rows = [], active = Some 7\<rparr> (Some usd)
       = \<lparr>model_rows = [], active = Some 7\<rparr>"
    using t1 by simp
  have n2: "printname acme
      \<notin> set (model_rows ((gnc_currency_edit_new demo_table)\<lparr>active := Some 2\<rparr>))"
    by (simp add: demo_rows a)
  have c2: "gnc_currency_edit_set_currency ((gnc_currency_edit_new demo_table)\<lparr>active := Some 2\<rparr>)
         (Some acme) = (gnc_currency_edit_new demo_table)\<lparr>active := Some 2\<rparr>"
    using t2 n2 by blast
  have m3: "printname usd \<in> set (model_rows (gnc_currency_edit_new demo_table))"
    by (simp add: demo_rows u)
  from t3 m3 obtain i where i: "i < length (model_rows (gnc_currency_edit_new demo_table))"
    "gnc_currency_edit_set_currency (gnc_currency_edit_new demo_table) (Some usd)
       = (gnc_currency_edit_new demo_table)\<lparr>active := Some i\<rparr>"
    "model_rows (gnc_currency_edit_new demo_table) ! i = printname usd"
    by blast
  from i(1) have "i = 0 \<or> i = 1 \<or> i = 2" by (auto simp: demo_rows)
  with i(3) have "i = 1" by (auto simp: demo_rows u)
  with i(2) have c3: "gnc_currency_edit_set_currency (gnc_currency_edit_new demo_table) (Some usd)
       = (gnc_currency_edit_new demo_table)\<lparr>active := Some 1\<rparr>" by simp
  from c1 n2 c2 m3 c3 show ?thesis by simp
qed

text \<open>
  Claim C9. With a row active, the mnemonic that \<^verbatim>\<open>gnc_currency_edit_get_currency\<close>
  hands to the commodity-table lookup, under the ISO namespace, is the row's text up to its
  first space; a text with no space is handed over whole. This holds for every lookup
  function, so it is the argument of the call that is described.
\<close>

theorem get_currency_mnemonic:
  "gtk_combo_box_get_active_iter gce = Some i \<Longrightarrow>
     snd (gnc_currency_edit_get_currency lookup dflt gce)
       = lookup GNC_COMMODITY_NS_ISO (takeWhile (\<lambda>ch. ch \<noteq> CHR '' '') (model_rows gce ! i))
     \<and> (CHR '' '' \<notin> set (model_rows gce ! i) \<longrightarrow>
          snd (gnc_currency_edit_get_currency lookup dflt gce)
            = lookup GNC_COMMODITY_NS_ISO (model_rows gce ! i))"
proof -
  assume a: "gtk_combo_box_get_active_iter gce = Some i"
  have r: "snd (gnc_currency_edit_get_currency lookup dflt gce)
      = lookup GNC_COMMODITY_NS_ISO (currency_mnemonic (model_rows gce ! i))"
    using a by (rule get_currency_active)
  have w: "CHR '' '' \<notin> set (model_rows gce ! i) \<longrightarrow>
      currency_mnemonic (model_rows gce ! i) = model_rows gce ! i"
    by (simp add: currency_mnemonic_takeWhile takeWhile_absent)
  have t: "currency_mnemonic (model_rows gce ! i)
      = takeWhile (\<lambda>ch. ch \<noteq> CHR '' '') (model_rows gce ! i)"
    by (rule currency_mnemonic_takeWhile)
  from r t have g1: "snd (gnc_currency_edit_get_currency lookup dflt gce)
       = lookup GNC_COMMODITY_NS_ISO (takeWhile (\<lambda>ch. ch \<noteq> CHR '' '') (model_rows gce ! i))"
    by simp
  from r w have g2: "CHR '' '' \<notin> set (model_rows gce ! i) \<longrightarrow>
          snd (gnc_currency_edit_get_currency lookup dflt gce)
            = lookup GNC_COMMODITY_NS_ISO (model_rows gce ! i)"
    by simp
  from g1 g2 show ?thesis by (rule conjI)
qed

theorem get_currency_mnemonic_witness:
  "gtk_combo_box_get_active_iter ((gnc_currency_edit_new demo_table)\<lparr>active := Some 1\<rparr>) = Some 1
   \<and> snd (gnc_currency_edit_get_currency (\<lambda>ns m. Some (usd\<lparr>cm_namespace := ns, mnemonic := m\<rparr>)) None
        ((gnc_currency_edit_new demo_table)\<lparr>active := Some 1\<rparr>))
      = Some (usd\<lparr>cm_namespace := GNC_COMMODITY_NS_ISO, mnemonic := ''USD''\<rparr>)
   \<and> gtk_combo_box_get_active_iter ((gnc_currency_edit_new demo_table)\<lparr>active := Some 2\<rparr>) = Some 2
   \<and> CHR '' '' \<notin> set (model_rows ((gnc_currency_edit_new demo_table)\<lparr>active := Some 2\<rparr>) ! 2)
   \<and> snd (gnc_currency_edit_get_currency (\<lambda>ns m. Some (usd\<lparr>cm_namespace := ns, mnemonic := m\<rparr>)) None
        ((gnc_currency_edit_new demo_table)\<lparr>active := Some 2\<rparr>))
      = Some (usd\<lparr>cm_namespace := GNC_COMMODITY_NS_ISO, mnemonic := ''XAU''\<rparr>)"
proof -
  have a1: "gtk_combo_box_get_active_iter ((gnc_currency_edit_new demo_table)\<lparr>active := Some 1\<rparr>) = Some 1"
    by (simp add: gtk_combo_box_get_active_iter_def demo_rows)
  have a2: "gtk_combo_box_get_active_iter ((gnc_currency_edit_new demo_table)\<lparr>active := Some 2\<rparr>) = Some 2"
    by (simp add: gtk_combo_box_get_active_iter_def demo_rows)
  show ?thesis
    using get_currency_mnemonic [OF a1, of "\<lambda>ns m. Some (usd\<lparr>cm_namespace := ns, mnemonic := m\<rparr>)" None]
      get_currency_mnemonic [OF a2, of "\<lambda>ns m. Some (usd\<lparr>cm_namespace := ns, mnemonic := m\<rparr>)" None]
      a1 a2
    by (simp add: demo_rows)
qed

section \<open>The CSV import dialog: what was proved\<close>

text \<open>A run that did not fail returned something.\<close>

lemma not_isl_Inr: "\<not> isl x \<Longrightarrow> \<exists>y. x = Inr y"
  by (cases x) simp_all

lemma not_isl_Inr_pair: "\<not> isl x \<Longrightarrow> \<exists>a b. x = Inr (a, b)"
  by (cases x) auto


subsection \<open>The refresh of the preview\<close>

text \<open>The handlers are unfolded one call at a time, where a proof says so.\<close>

declare sep_button_clicked.simps(2) [simp del]
declare encoding_selected.simps(2) [simp del]
declare go_charmap_sel_set_encoding.simps [simp del]

lemma preview_treeview_date_format:
  "gnc_csv_preview_treeview preview notEmpty = Inr preview' \<Longrightarrow>
     date_format (parse_data preview') = date_format_combo preview
     \<and> date_format_combo preview' = date_format_combo preview"
  by (auto simp: gnc_csv_preview_treeview_def code_caused_call_def Let_def split: sum.splits)

lemma error_rows_total:
  "list_all (\<lambda>i. i < length lines) errs \<Longrightarrow> \<exists>rows. error_rows ncols lines errs = Inr rows"
  by (induction errs) auto


lemma preview_treeview_total:
  assumes "\<not> previewing_errors preview
     \<or> list_all (\<lambda>i. i < length (orig_lines (parse_data preview))) (error_lines (parse_data preview))"
  shows "\<exists>preview'. gnc_csv_preview_treeview preview notEmpty = Inr preview'"
proof (cases "previewing_errors preview")
  case True
  with assms obtain rows where
    "error_rows (length (column_types (parse_data preview))) (orig_lines (parse_data preview))
       (error_lines (parse_data preview)) = Inr rows"
    using error_rows_total by blast
  with True show ?thesis by (simp add: gnc_csv_preview_treeview_def Let_def)
next
  case False
  then show ?thesis by (simp add: gnc_csv_preview_treeview_def Let_def)
qed

text \<open>
  The two calls of \<^verbatim>\<open>encoding_selected\<close> that the refresh causes, as the handler
  makes them: with the count at 2 the selector's change comes to the two count-downs that
  \<open>gnc_csv_preview_treeview\<close> is defined with, under every bound that lets the handler
  run at all; and the refresh leaves the count at 0 and the selector on the encoding of the
  parse data.
\<close>

lemma refresh_calls_are_code_caused:
  "go_charmap_sel_set_encoding (Suc depth) M enc (preview\<lparr>code_encoding_calls := 2\<rparr>)
     = Inr (code_caused_call (code_caused_call
              (preview\<lparr>code_encoding_calls := 2, encselector := enc\<rparr>)))"
  by (simp add: go_charmap_sel_set_encoding.simps encoding_selected.simps(2)
      code_caused_call_def)

lemma preview_treeview_settled:
  "gnc_csv_preview_treeview preview notEmpty = Inr preview' \<Longrightarrow>
     code_encoding_calls preview' = 0
     \<and> encselector preview' = encoding (parse_data preview')
     \<and> encoding (parse_data preview') = encoding (parse_data preview)
     \<and> encoding_selected_called preview' = encoding_selected_called preview"
  by (auto simp: gnc_csv_preview_treeview_def code_caused_call_def Let_def split: sum.splits)

lemma sep_button_clicked_ok:
  "fst (set_separators_and_parse M preview) = None \<Longrightarrow>
     sep_button_clicked (Suc depth) M widget preview
       = gnc_csv_preview_treeview (preview\<lparr>parse_data := snd (set_separators_and_parse M preview)\<rparr>) True"
  by (cases "set_separators_and_parse M preview") (simp add: sep_button_clicked.simps(2))

lemma encoding_selected_acts_ok:
  assumes "\<not> 0 < code_encoding_calls preview" and "encoding_selected_called preview"
    and "fst (convert_and_parse M enc (parse_data preview)) = None"
  shows "encoding_selected (Suc depth) M enc preview
       = (case gnc_csv_preview_treeview
                 (preview\<lparr>parse_data := snd (convert_and_parse M enc (parse_data preview))\<rparr>) True of
            Inl f \<Rightarrow> Inl f
          | Inr preview \<Rightarrow> Inr (preview\<lparr>encoding_selected_called := False\<rparr>))"
  using assms
  by (cases "convert_and_parse M enc (parse_data preview)")
     (simp add: encoding_selected.simps(2))

text \<open>
  Claim C10. The last thing \<^verbatim>\<open>gnc_csv_preview_treeview\<close> does is to store the active
  index of the date-format combo box in the parse data. So after a refresh that returns, the
  parse data's date format is the one the combo box shows, whatever it was before, and the
  combo box is as it was. A refresh returns whenever it shows all lines, or every error
  line is a line of the file. The same holds after a separator change and after an encoding
  change whose reparse succeeded, since both end in a refresh.
\<close>

theorem refresh_sets_date_format:
  "(gnc_csv_preview_treeview preview notEmpty = Inr preview' \<longrightarrow>
      date_format (parse_data preview') = date_format_combo preview'
      \<and> date_format_combo preview' = date_format_combo preview)
   \<and> (\<not> previewing_errors preview
        \<or> list_all (\<lambda>i. i < length (orig_lines (parse_data preview)))
             (error_lines (parse_data preview)) \<longrightarrow>
        (\<exists>shown. gnc_csv_preview_treeview preview notEmpty = Inr shown))
   \<and> (fst (set_separators_and_parse M preview) = None
        \<and> sep_button_clicked depth M widget preview = Inr preview' \<longrightarrow>
        date_format (parse_data preview') = date_format_combo preview'
        \<and> date_format_combo preview' = date_format_combo preview)
   \<and> (\<not> 0 < code_encoding_calls preview \<and> encoding_selected_called preview
        \<and> fst (convert_and_parse M enc (parse_data preview)) = None
        \<and> encoding_selected depth M enc preview = Inr preview' \<longrightarrow>
        date_format (parse_data preview') = date_format_combo preview'
        \<and> date_format_combo preview' = date_format_combo preview)"
proof (intro conjI impI)
  assume "gnc_csv_preview_treeview preview notEmpty = Inr preview'"
  from preview_treeview_date_format [OF this]
  show "date_format (parse_data preview') = date_format_combo preview'"
    and "date_format_combo preview' = date_format_combo preview" by simp_all
next
  assume "\<not> previewing_errors preview
        \<or> list_all (\<lambda>i. i < length (orig_lines (parse_data preview)))
             (error_lines (parse_data preview))"
  then show "\<exists>shown. gnc_csv_preview_treeview preview notEmpty = Inr shown"
    by (rule preview_treeview_total)
next
  assume a: "fst (set_separators_and_parse M preview) = None
        \<and> sep_button_clicked depth M widget preview = Inr preview'"
  then have a1: "fst (set_separators_and_parse M preview) = None"
    and a2: "sep_button_clicked depth M widget preview = Inr preview'" by simp_all
  from a2 obtain d where d: "depth = Suc d" by (cases depth) simp_all
  from sep_button_clicked_ok [OF a1, of d widget] a2 d have "gnc_csv_preview_treeview
      (preview\<lparr>parse_data := snd (set_separators_and_parse M preview)\<rparr>) True = Inr preview'"
    by simp
  from preview_treeview_date_format [OF this]
  show "date_format (parse_data preview') = date_format_combo preview'"
    and "date_format_combo preview' = date_format_combo preview" by simp_all
next
  assume a: "\<not> 0 < code_encoding_calls preview \<and> encoding_selected_called preview
        \<and> fst (convert_and_parse M enc (parse_data preview)) = None
        \<and> encoding_selected depth M enc preview = Inr preview'"
  then have a2: "encoding_selected depth M enc preview = Inr preview'" by simp
  from a2 obtain d where d: "depth = Suc d" by (cases depth) simp_all
  from a d have e: "(case gnc_csv_preview_treeview
                 (preview\<lparr>parse_data := snd (convert_and_parse M enc (parse_data preview))\<rparr>) True of
            Inl f \<Rightarrow> Inl f
          | Inr preview \<Rightarrow> Inr (preview\<lparr>encoding_selected_called := False\<rparr>)) = Inr preview'"
    using encoding_selected_acts_ok [of preview M enc d] by simp
  then obtain shown where s: "gnc_csv_preview_treeview
      (preview\<lparr>parse_data := snd (convert_and_parse M enc (parse_data preview))\<rparr>) True = Inr shown"
    and p: "preview' = shown\<lparr>encoding_selected_called := False\<rparr>"
    by (auto split: sum.splits)
  from preview_treeview_date_format [OF s] p
  show "date_format (parse_data preview') = date_format_combo preview'"
    and "date_format_combo preview' = date_format_combo preview" by simp_all
qed

theorem refresh_sets_date_format_witness:
  "date_format (parse_data demo_stale) = 5
   \<and> \<not> previewing_errors demo_stale
   \<and> map_sum id (\<lambda>p. (date_format (parse_data p), date_format_combo p))
        (gnc_csv_preview_treeview demo_stale True) = Inr (3, 3)
   \<and> fst (set_separators_and_parse demo_model demo_stale) = None
   \<and> map_sum id (\<lambda>p. (date_format (parse_data p), date_format_combo p))
        (sep_button_clicked 3 demo_model (SEP_BUTTON 2) demo_stale) = Inr (3, 3)
   \<and> \<not> 0 < code_encoding_calls demo_stale \<and> encoding_selected_called demo_stale
   \<and> fst (convert_and_parse demo_model ''Latin1'' (parse_data demo_stale)) = None
   \<and> map_sum id (\<lambda>p. (date_format (parse_data p), date_format_combo p))
        (encoding_selected 3 demo_model ''Latin1'' demo_stale) = Inr (3, 3)"
proof -
  note t = refresh_sets_date_format
    [of demo_stale True _ demo_model 3 "SEP_BUTTON 2" "''Latin1''"]
  have d: "date_format (parse_data demo_stale) = 5" by code_simp
  have c: "date_format_combo demo_stale = 3" by code_simp
  have h1: "\<not> previewing_errors demo_stale" by code_simp
  have h2: "fst (set_separators_and_parse demo_model demo_stale) = None" by code_simp
  have h3: "\<not> 0 < code_encoding_calls demo_stale" by code_simp
  have h4: "encoding_selected_called demo_stale" by code_simp
  have h5: "fst (convert_and_parse demo_model ''Latin1'' (parse_data demo_stale)) = None"
    by code_simp
  from t h1 obtain shown where s: "gnc_csv_preview_treeview demo_stale True = Inr shown"
    by blast
  from t [of shown] s c have r1: "map_sum id (\<lambda>p. (date_format (parse_data p), date_format_combo p))
        (gnc_csv_preview_treeview demo_stale True) = Inr (3, 3)"
    by simp
  have "\<not> isl (sep_button_clicked 3 demo_model (SEP_BUTTON 2) demo_stale)" by code_simp
  then obtain p2 where s2: "sep_button_clicked 3 demo_model (SEP_BUTTON 2) demo_stale = Inr p2"
    using not_isl_Inr by blast
  from t [of p2] s2 h2 c have r2: "map_sum id (\<lambda>p. (date_format (parse_data p), date_format_combo p))
        (sep_button_clicked 3 demo_model (SEP_BUTTON 2) demo_stale) = Inr (3, 3)"
    by simp
  have "\<not> isl (encoding_selected 3 demo_model ''Latin1'' demo_stale)" by code_simp
  then obtain p3 where s3: "encoding_selected 3 demo_model ''Latin1'' demo_stale = Inr p3"
    using not_isl_Inr by blast
  from t [of p3] s3 h3 h4 h5 c have r3: "map_sum id (\<lambda>p. (date_format (parse_data p), date_format_combo p))
        (encoding_selected 3 demo_model ''Latin1'' demo_stale) = Inr (3, 3)"
    by simp
  from d h1 r1 h2 r2 h3 h4 h5 r3 show ?thesis by simp
qed

subsection \<open>A separator change whose reparse fails\<close>

lemma sep_button_clicked_failed:
  "fst (set_separators_and_parse M preview) \<noteq> None \<Longrightarrow>
     sep_button_clicked (Suc depth) M widget preview
       = (if widget = CUSTOM_ENTRY
          then (if custom_entry preview = [] then Inr (parse_failed M preview)
                else sep_button_clicked depth M widget
                       ((parse_failed M preview)\<lparr>custom_entry := []\<rparr>))
          else sep_button_clicked depth M widget (toggle_button widget (parse_failed M preview)))"
  by (cases "set_separators_and_parse M preview")
     (auto simp: sep_button_clicked.simps(2) parse_failed_def)


text \<open>
  A handler that has returned under one bound on the nesting returns the same under the
  next, and so under every greater one.
\<close>

lemma sep_button_clicked_mono:
  "sep_button_clicked depth M widget preview \<noteq> Inl NotReturned \<Longrightarrow>
     sep_button_clicked (Suc depth) M widget preview = sep_button_clicked depth M widget preview"
proof (induction depth arbitrary: preview)
  case 0
  then show ?case by simp
next
  case (Suc depth)
  show ?case
  proof (cases "fst (set_separators_and_parse M preview) = None")
    case True
    then show ?thesis by (simp add: sep_button_clicked_ok)
  next
    case False
    note u = sep_button_clicked_failed [OF False]
    from Suc.prems u [of depth widget] Suc.IH
    show ?thesis by (simp add: u [of "Suc depth" widget] split: if_splits)
  qed
qed












text \<open>
  With a parser that rejects whatever it is given, a toggle is undone, the undoing is a
  toggle whose reparse fails, which is undone, and so on: the handler is still running at
  every bound.
\<close>

lemma toggle_never_settles:
  "widget \<noteq> CUSTOM_ENTRY \<Longrightarrow>
     sep_button_clicked depth demo_unparsable widget preview = Inl NotReturned"
proof (induction depth arbitrary: preview)
  case 0
  show ?case by simp
next
  case (Suc depth)
  have f: "fst (set_separators_and_parse demo_unparsable preview) \<noteq> None"
    by (simp add: set_separators_and_parse_def demo_unparsable_def Let_def)
  from sep_button_clicked_failed [OF f, of depth widget] Suc.prems Suc.IH [OF Suc.prems]
  show ?case by simp
qed




subsection \<open>An encoding change\<close>

lemma encoding_selected_first:
  "\<not> 0 < code_encoding_calls preview \<Longrightarrow> \<not> encoding_selected_called preview \<Longrightarrow>
     encoding_selected (Suc depth) M enc preview = Inr (preview\<lparr>encoding_selected_called := True\<rparr>)"
  by (simp add: encoding_selected.simps(2))

lemma encoding_selected_acts_failed:
  assumes "\<not> 0 < code_encoding_calls preview" and "encoding_selected_called preview"
    and "fst (convert_and_parse M enc (parse_data preview)) \<noteq> None"
  shows "encoding_selected (Suc depth) M enc preview
       = go_charmap_sel_set_encoding depth M (encoding (parse_data preview))
           (preview\<lparr>parse_data := snd (convert_and_parse M enc (parse_data preview)),
                    error_dialogs := error_dialogs preview @ [''Invalid encoding selected''],
                    encoding_selected_called := False\<rparr>)"
  using assms
  by (cases "convert_and_parse M enc (parse_data preview)")
     (auto simp: encoding_selected.simps(2))

text \<open>
  A change of the selector while no code-caused call is awaited and the flag is clear: the
  first of the two calls sets the flag, the second acts.
\<close>

lemma selector_changed:
  assumes "\<not> 0 < code_encoding_calls preview" and "\<not> encoding_selected_called preview"
  shows "go_charmap_sel_set_encoding (Suc depth) M enc preview
       = encoding_selected (Suc depth) M enc
           (preview\<lparr>encselector := enc, encoding_selected_called := True\<rparr>)"
  using assms by (simp add: go_charmap_sel_set_encoding.simps encoding_selected_first)

text \<open>
  A handler that has returned under one bound on the nesting returns the same under the
  next, and so under every greater one.
\<close>

lemma encoding_selected_mono:
  "(encoding_selected depth M enc preview \<noteq> Inl NotReturned \<longrightarrow>
      encoding_selected (Suc depth) M enc preview = encoding_selected depth M enc preview)
   \<and> (go_charmap_sel_set_encoding depth M enc preview \<noteq> Inl NotReturned \<longrightarrow>
      go_charmap_sel_set_encoding (Suc depth) M enc preview
        = go_charmap_sel_set_encoding depth M enc preview)"
proof (induction depth arbitrary: enc preview)
  case 0
  show ?case by (simp add: go_charmap_sel_set_encoding.simps)
next
  case (Suc depth)
  have handler: "encoding_selected (Suc (Suc depth)) M e q = encoding_selected (Suc depth) M e q"
    if r: "encoding_selected (Suc depth) M e q \<noteq> Inl NotReturned" for e q
    using r Suc.IH
    by (cases "convert_and_parse M e (parse_data q)")
       (auto simp: encoding_selected.simps(2) Let_def)
  have selector: "go_charmap_sel_set_encoding (Suc (Suc depth)) M e q
      = go_charmap_sel_set_encoding (Suc depth) M e q"
    if r: "go_charmap_sel_set_encoding (Suc depth) M e q \<noteq> Inl NotReturned" for e q
  proof (cases "encoding_selected (Suc depth) M e (q\<lparr>encselector := e\<rparr>)")
    case (Inl f)
    with r have "f \<noteq> NotReturned" by (simp add: go_charmap_sel_set_encoding.simps)
    with Inl handler [of e "q\<lparr>encselector := e\<rparr>"] show ?thesis
      by (simp add: go_charmap_sel_set_encoding.simps)
  next
    case (Inr q1)
    with r have "encoding_selected (Suc depth) M e q1 \<noteq> Inl NotReturned"
      by (simp add: go_charmap_sel_set_encoding.simps)
    from handler [OF this] handler [of e "q\<lparr>encselector := e\<rparr>"] Inr show ?thesis
      by (simp add: go_charmap_sel_set_encoding.simps)
  qed
  from handler selector show ?case by blast
qed

text \<open>
  What an encoding change comes to when the handler settles. If the conversion and the
  reparse succeed, the dialog is refreshed from the parse data as converted and parsed. If
  they fail and the conversion back to the previous encoding and its reparse succeed, one
  error has been reported and the dialog is refreshed from the parse data as converted back
  and parsed. Either way the handler returns where the refresh does, the selector shows the
  encoding of the parse data, no code-caused call is awaited and the flag is clear.
\<close>

lemma encoding_change_settles:
  assumes c: "\<not> 0 < code_encoding_calls preview" and f: "\<not> encoding_selected_called preview"
  shows "(fst (convert_and_parse M enc (parse_data preview)) = None \<longrightarrow>
            go_charmap_sel_set_encoding (Suc depth) M enc preview
              = (case gnc_csv_preview_treeview
                        (preview\<lparr>encselector := enc, encoding_selected_called := True,
                                 parse_data := snd (convert_and_parse M enc (parse_data preview))\<rparr>)
                        True of
                   Inl f \<Rightarrow> Inl f
                 | Inr shown \<Rightarrow> Inr (shown\<lparr>encoding_selected_called := False\<rparr>)))
         \<and> (fst (convert_and_parse M enc (parse_data preview)) \<noteq> None
            \<and> fst (convert_and_parse M (encoding (parse_data preview))
                     (snd (convert_and_parse M enc (parse_data preview)))) = None \<longrightarrow>
            go_charmap_sel_set_encoding (Suc (Suc depth)) M enc preview
              = (case gnc_csv_preview_treeview
                        (preview\<lparr>encselector := encoding (parse_data preview),
                                 encoding_selected_called := True,
                                 error_dialogs := error_dialogs preview
                                                  @ [''Invalid encoding selected''],
                                 parse_data :=
                                   snd (convert_and_parse M (encoding (parse_data preview))
                                          (snd (convert_and_parse M enc (parse_data preview))))\<rparr>)
                        True of
                   Inl f \<Rightarrow> Inl f
                 | Inr shown \<Rightarrow> Inr (shown\<lparr>encoding_selected_called := False\<rparr>)))"
  using c f
  by (cases preview)
     (simp add: go_charmap_sel_set_encoding.simps encoding_selected.simps(2) Let_def
        split_beta)

lemma encoding_change_reverted:
  assumes c: "\<not> 0 < code_encoding_calls preview" and f: "\<not> encoding_selected_called preview"
    and bad: "fst (convert_and_parse M enc (parse_data preview)) \<noteq> None"
    and rvt: "fst (convert_and_parse M (encoding (parse_data preview))
                     (snd (convert_and_parse M enc (parse_data preview)))) = None"
    and r: "go_charmap_sel_set_encoding (Suc (Suc depth)) M enc preview = Inr preview'"
  shows "encselector preview' = encoding (parse_data preview')
         \<and> encoding (parse_data preview')
             = encoding (snd (convert_and_parse M (encoding (parse_data preview))
                                (snd (convert_and_parse M enc (parse_data preview)))))
         \<and> error_dialogs preview' = error_dialogs preview @ [''Invalid encoding selected'']
         \<and> code_encoding_calls preview' = 0 \<and> \<not> encoding_selected_called preview'"
proof -
  from encoding_change_settles [OF c f, of M enc depth] bad rvt r
  obtain shown where s: "gnc_csv_preview_treeview
      (preview\<lparr>encselector := encoding (parse_data preview),
               encoding_selected_called := True,
               error_dialogs := error_dialogs preview @ [''Invalid encoding selected''],
               parse_data := snd (convert_and_parse M (encoding (parse_data preview))
                                    (snd (convert_and_parse M enc (parse_data preview))))\<rparr>)
      True = Inr shown"
    and p: "preview' = shown\<lparr>encoding_selected_called := False\<rparr>"
    by (auto split: sum.splits)
  from preview_treeview_settled [OF s] p
  have a: "encselector preview' = encoding (parse_data preview')"
    "encoding (parse_data preview')
       = encoding (snd (convert_and_parse M (encoding (parse_data preview))
                          (snd (convert_and_parse M enc (parse_data preview)))))"
    "code_encoding_calls preview' = 0" "\<not> encoding_selected_called preview'"
    by simp_all
  from s p have d: "error_dialogs preview'
      = error_dialogs preview @ [''Invalid encoding selected'']"
    by (auto simp: gnc_csv_preview_treeview_def code_caused_call_def Let_def split: sum.splits)
  from a d show ?thesis by simp
qed

text \<open>
  So it is with the parser of \<open>demo_model\<close> at the first preview: text converted to EBCDIC
  does not parse and UTF-16 cannot be converted to, the selector comes back to UTF-8 with
  the parse data converted back and one error reported; Latin1 is taken.
\<close>

lemma encoding_change_demo:
  "map_sum id (\<lambda>p. (encselector p, encoding (parse_data p), error_dialogs p))
     (handle_event 3 demo_model (SelectEncoding ''EBCDIC'') demo_preview)
     = Inr (''UTF-8'', ''UTF-8'', [''Invalid encoding selected''])
   \<and> map_sum id (\<lambda>p. (encselector p, encoding (parse_data p), error_dialogs p))
     (handle_event 3 demo_model (SelectEncoding ''UTF-16'') demo_preview)
     = Inr (''UTF-8'', ''UTF-8'', [''Invalid encoding selected''])
   \<and> map_sum id (\<lambda>p. (encselector p, encoding (parse_data p), error_dialogs p))
     (handle_event 3 demo_model (SelectEncoding ''Latin1'') demo_preview)
     = Inr (''Latin1'', ''Latin1'', [])"
  by code_simp

text \<open>
  Where no conversion and reparse succeeds, each failed attempt sets the selector back,
  which is an encoding change whose attempt fails: the handler is still running at every
  bound.
\<close>

lemma encoding_selected_never_settles:
  assumes bad: "\<And>enc pd. fst (convert_and_parse M enc pd) \<noteq> None"
  shows "\<not> 0 < code_encoding_calls preview \<Longrightarrow> encoding_selected_called preview \<Longrightarrow>
     encoding_selected depth M enc preview = Inl NotReturned"
proof (induction depth arbitrary: preview enc)
  case 0
  show ?case by simp
next
  case (Suc depth)
  let ?q = "preview\<lparr>parse_data := snd (convert_and_parse M enc (parse_data preview)),
                    error_dialogs := error_dialogs preview @ [''Invalid encoding selected''],
                    encoding_selected_called := False\<rparr>"
  have one: "encoding_selected (Suc depth) M enc preview
      = go_charmap_sel_set_encoding depth M (encoding (parse_data preview)) ?q"
    using Suc.prems bad by (rule encoding_selected_acts_failed)
  show ?case
  proof (cases depth)
    case 0
    then show ?thesis using one by (simp add: go_charmap_sel_set_encoding.simps)
  next
    case (Suc d)
    have "go_charmap_sel_set_encoding depth M (encoding (parse_data preview)) ?q
        = encoding_selected depth M (encoding (parse_data preview))
            (?q\<lparr>encselector := encoding (parse_data preview),
                encoding_selected_called := True\<rparr>)"
      unfolding Suc using Suc.prems(1) by (intro selector_changed) simp_all
    also have "\<dots> = Inl NotReturned"
      using Suc.prems(1) by (intro Suc.IH) simp_all
    finally show ?thesis by (simp add: one)
  qed
qed

lemma encoding_change_unparsable:
  assumes "\<not> 0 < code_encoding_calls preview" and "\<not> encoding_selected_called preview"
  shows "go_charmap_sel_set_encoding depth demo_unparsable enc preview = Inl NotReturned"
proof (cases depth)
  case 0
  then show ?thesis by (simp add: go_charmap_sel_set_encoding.simps)
next
  case (Suc d)
  have bad: "\<And>enc pd. fst (convert_and_parse demo_unparsable enc pd) \<noteq> None"
    by (simp add: convert_and_parse_def demo_unparsable_def demo_model_def demo_convert_def
        split: prod.splits)
  have "go_charmap_sel_set_encoding depth demo_unparsable enc preview
      = encoding_selected depth demo_unparsable enc
          (preview\<lparr>encselector := enc, encoding_selected_called := True\<rparr>)"
    unfolding Suc using assms by (rule selector_changed)
  also have "\<dots> = Inl NotReturned"
    using bad assms(1) by (intro encoding_selected_never_settles) simp_all
  finally show ?thesis .
qed

text \<open>
  Claim C2. The handler does what the claim says whenever it settles (lemmas
  \<open>encoding_change_settles\<close> and \<open>encoding_change_reverted\<close>), but it need not settle. Take
  a file whose lines the parser rejects under every encoding: the first parse fails, the
  import reports that and goes on to the preview, which shows no lines, with the selector
  on the encoding of the parse data and no call awaited. The user picks another encoding.
  The attempt fails, the handler sets the selector back, which calls the handler to convert
  back and parse again, which fails, so that the handler sets the selector to the encoding
  just left, and so on: the handler has not returned at any bound on the nesting, so the
  selector never comes to rest on the value it had before.
\<close>

theorem encoding_change_never_settles:
  "encselector demo_blank = ''UTF-8'' \<and> encoding (parse_data demo_blank) = ''UTF-8''
   \<and> code_encoding_calls demo_blank = 0 \<and> \<not> encoding_selected_called demo_blank
   \<and> fst (convert_and_parse demo_unparsable ''Latin1'' (parse_data demo_blank)) \<noteq> None
   \<and> handle_event depth demo_unparsable (SelectEncoding ''Latin1'') demo_blank
       = Inl NotReturned"
proof -
  have v: "encselector demo_blank = ''UTF-8''" "encoding (parse_data demo_blank) = ''UTF-8''"
    "code_encoding_calls demo_blank = 0" "\<not> encoding_selected_called demo_blank"
    "fst (convert_and_parse demo_unparsable ''Latin1'' (parse_data demo_blank)) \<noteq> None"
    by code_simp+
  have "handle_event depth demo_unparsable (SelectEncoding ''Latin1'') demo_blank
       = Inl NotReturned"
    using encoding_change_unparsable [of demo_blank depth "''Latin1''"] v by simp
  with v show ?thesis by simp
qed

subsection \<open>Editing a column type\<close>

lemma column_type_edited_loop_frame:
  "column_type_edited_loop r t idxs p = Inr p' \<Longrightarrow>
     p' = p\<lparr>ctreeview_model := ctreeview_model p'\<rparr>
     \<and> length (ctreeview_model p') = length (ctreeview_model p)"
proof (induction idxs arbitrary: p)
  case Nil
  then show ?case by simp
next
  case (Cons i idxs)
  from Cons.prems Cons.IH show ?case
    by (fastforce split: if_splits)
qed

lemma column_type_edited_loop_total:
  "list_all (\<lambda>i. i < length (ctreeview_columns p) \<and> i < length (ctreeview_model p)) idxs \<Longrightarrow>
     \<exists>p'. column_type_edited_loop r t idxs p = Inr p'"
proof (induction idxs arbitrary: p)
  case Nil
  then show ?case by simp
next
  case (Cons i idxs)
  then show ?case by simp
qed

lemma column_type_edited_loop_cells:
  "column_type_edited_loop r t idxs p = Inr p' \<Longrightarrow> distinct idxs \<Longrightarrow>
     j < length (ctreeview_model p) \<Longrightarrow>
     ctreeview_model p' ! j
       = (if j \<in> set idxs then edited_cell r t (ctreeview_columns p) (ctreeview_model p) j
          else ctreeview_model p ! j)"
proof (induction idxs arbitrary: p)
  case Nil
  then show ?case by simp
next
  case (Cons i idxs)
  from Cons.prems(1) have il: "i < length (ctreeview_columns p)"
    by (auto split: if_splits)
  let ?v = "edited_cell r t (ctreeview_columns p) (ctreeview_model p) i"
  let ?p1 = "p\<lparr>ctreeview_model := (ctreeview_model p)[i := ?v]\<rparr>"
  have step: "column_type_edited_loop r t idxs ?p1 = Inr p'"
    using Cons.prems(1) il by (auto simp: edited_cell_def split: if_splits)
  from Cons.prems(2) have d: "distinct idxs" and ni: "i \<notin> set idxs" by simp_all
  have j1: "j < length (ctreeview_model ?p1)" using Cons.prems(3) by simp
  note ih = Cons.IH [OF step d j1]
  show ?case
  proof (cases "j = i")
    case True
    with ih ni Cons.prems(3) show ?thesis by simp
  next
    case False
    with ih show ?thesis by (simp add: edited_cell_def)
  qed
qed

lemma distinct_filter_nth:
  "distinct (filter P xs)
     = (\<forall>i j. i < j \<and> j < length xs \<and> P (xs ! i) \<and> P (xs ! j) \<longrightarrow> xs ! i \<noteq> xs ! j)"
proof (induction xs)
  case Nil
  then show ?case by simp
next
  case (Cons x xs)
  have hd: "(x \<notin> set (filter P xs)) = (\<forall>j < length xs. P (xs ! j) \<longrightarrow> xs ! j \<noteq> x)"
    by (auto simp: in_set_conv_nth)
  have split: "(\<forall>i j. i < j \<and> j < length (x # xs) \<and> P ((x # xs) ! i) \<and> P ((x # xs) ! j)
                  \<longrightarrow> (x # xs) ! i \<noteq> (x # xs) ! j)
      = ((\<forall>j < length xs. P x \<and> P (xs ! j) \<longrightarrow> x \<noteq> xs ! j)
         \<and> (\<forall>i j. i < j \<and> j < length xs \<and> P (xs ! i) \<and> P (xs ! j) \<longrightarrow> xs ! i \<noteq> xs ! j))"
    (is "?L = (?A \<and> ?B)")
  proof
    assume l: ?L
    have "?A"
    proof (intro allI impI)
      fix j assume "j < length xs" "P x \<and> P (xs ! j)"
      with l [rule_format, of 0 "Suc j"] show "x \<noteq> xs ! j" by simp
    qed
    moreover have "?B"
    proof (intro allI impI)
      fix i j assume "i < j \<and> j < length xs \<and> P (xs ! i) \<and> P (xs ! j)"
      with l [rule_format, of "Suc i" "Suc j"] show "xs ! i \<noteq> xs ! j" by simp
    qed
    ultimately show "?A \<and> ?B" ..
  next
    assume ab: "?A \<and> ?B"
    show ?L
    proof (intro allI impI)
      fix i j
      assume h: "i < j \<and> j < length (x # xs) \<and> P ((x # xs) ! i) \<and> P ((x # xs) ! j)"
      then obtain j' where j': "j = Suc j'" by (cases j) auto
      show "(x # xs) ! i \<noteq> (x # xs) ! j"
      proof (cases i)
        case 0
        with h j' ab show ?thesis by simp
      next
        case (Suc i')
        with h j' ab show ?thesis by simp
      qed
    qed
  qed
  show ?case
    unfolding split using Cons.IH hd by auto
qed


lemma column_type_edited_result:
  assumes n1: "length (ctreeview_columns preview) = length (column_types (parse_data preview))"
    and n2: "length (ctreeview_model preview) = length (column_types (parse_data preview))"
  shows "\<exists>preview'. column_type_edited renderer new_text preview = Inr preview'
          \<and> preview' = preview\<lparr>ctreeview_model := ctreeview_model preview'\<rparr>
          \<and> length (ctreeview_model preview') = length (ctreeview_model preview)
          \<and> (\<forall>j < length (ctreeview_model preview).
                ctreeview_model preview' ! j
                  = edited_cell renderer new_text (ctreeview_columns preview)
                      (ctreeview_model preview) j)"
proof -
  let ?n = "length (column_types (parse_data preview))"
  have "list_all (\<lambda>i. i < length (ctreeview_columns preview)
                      \<and> i < length (ctreeview_model preview)) [0 ..< ?n]"
    using n1 n2 by (simp add: list_all_iff)
  from column_type_edited_loop_total [OF this, of renderer new_text]
  obtain preview' where r: "column_type_edited_loop renderer new_text [0 ..< ?n] preview = Inr preview'"
    by blast
  from column_type_edited_loop_frame [OF r]
  have fr: "preview' = preview\<lparr>ctreeview_model := ctreeview_model preview'\<rparr>"
    "length (ctreeview_model preview') = length (ctreeview_model preview)" by simp_all
  have cells: "\<forall>j < length (ctreeview_model preview).
                ctreeview_model preview' ! j
                  = edited_cell renderer new_text (ctreeview_columns preview)
                      (ctreeview_model preview) j"
  proof (intro allI impI)
    fix j assume j: "j < length (ctreeview_model preview)"
    from column_type_edited_loop_cells [OF r _ j] j n2
    show "ctreeview_model preview' ! j
            = edited_cell renderer new_text (ctreeview_columns preview)
                (ctreeview_model preview) j"
      by simp
  qed
  from r fr cells show ?thesis by (auto simp: column_type_edited_def)
qed

lemma preview_treeview_wellformed:
  assumes "gnc_csv_preview_treeview preview notEmpty = Inr preview'"
    and "notEmpty \<or> ctreeview_columns preview = []"
  shows "length (ctreeview_columns preview') = length (column_types (parse_data preview'))
     \<and> length (ctreeview_model preview') = length (column_types (parse_data preview'))
     \<and> distinct (ctreeview_columns preview')"
  using assms
  by (auto simp: gnc_csv_preview_treeview_def code_caused_call_def Let_def
      split: sum.splits if_splits)

text \<open>
  Claim C3. The dialog is as a refresh leaves it: one renderer and one cell for each column
  of the parse data, no renderer used twice (\<open>preview_treeview_wellformed\<close>). The user
  edits the type of column \<open>col\<close> to \<open>new_text\<close>. Then \<^verbatim>\<open>column_type_edited\<close> returns,
  and it changes the cells of the column-type row only: the cell of \<open>col\<close> holds
  \<open>new_text\<close>, every other cell that held \<open>new_text\<close> holds \<^verbatim>\<open>None\<close>, and the others
  are as they were. So a type other than \<^verbatim>\<open>None\<close> that has just been assigned is held
  by the edited column alone, and if no two columns shared a type other than \<^verbatim>\<open>None\<close>
  before the edit, none do after it.
\<close>

theorem column_type_edit_keeps_types_apart:
  assumes n1: "length (ctreeview_columns preview) = length (column_types (parse_data preview))"
    and n2: "length (ctreeview_model preview) = length (column_types (parse_data preview))"
    and d: "distinct (ctreeview_columns preview)"
    and c: "col < length (ctreeview_columns preview)"
  shows "\<exists>preview'. handle_event depth M (EditColumnType col new_text) preview = Inr preview'
          \<and> preview' = preview\<lparr>ctreeview_model := ctreeview_model preview'\<rparr>
          \<and> length (ctreeview_model preview') = length (ctreeview_model preview)
          \<and> ctreeview_model preview' ! col = new_text
          \<and> (\<forall>j < length (ctreeview_model preview). j \<noteq> col \<longrightarrow>
                ctreeview_model preview' ! j
                  = (if ctreeview_model preview ! j = new_text
                     then column_type_strs GNC_CSV_NONE else ctreeview_model preview ! j))
          \<and> (new_text \<noteq> column_type_strs GNC_CSV_NONE \<longrightarrow>
                (\<forall>j < length (ctreeview_model preview). j \<noteq> col \<longrightarrow>
                   ctreeview_model preview' ! j \<noteq> new_text))
          \<and> (types_apart (ctreeview_model preview) \<longrightarrow> types_apart (ctreeview_model preview'))"
proof -
  let ?r = "ctreeview_columns preview ! col"
  let ?cells = "ctreeview_model preview"
  let ?none = "column_type_strs GNC_CSV_NONE"
  from column_type_edited_result [OF n1 n2, of ?r new_text]
  obtain preview' where r: "column_type_edited ?r new_text preview = Inr preview'"
    and fr: "preview' = preview\<lparr>ctreeview_model := ctreeview_model preview'\<rparr>"
    and len: "length (ctreeview_model preview') = length ?cells"
    and cells: "\<forall>j < length ?cells.
        ctreeview_model preview' ! j = edited_cell ?r new_text (ctreeview_columns preview) ?cells j"
    by blast
  have ev: "handle_event depth M (EditColumnType col new_text) preview = Inr preview'"
    using r c by simp
  have cl: "col < length ?cells" using c n1 n2 by simp
  have at_col: "ctreeview_model preview' ! col = new_text"
    using cells cl by (simp add: edited_cell_def)
  have other: "\<forall>j < length ?cells. j \<noteq> col \<longrightarrow>
      ctreeview_model preview' ! j = (if ?cells ! j = new_text then ?none else ?cells ! j)"
  proof (intro allI impI)
    fix j assume j: "j < length ?cells" and ne: "j \<noteq> col"
    from j n1 n2 have "j < length (ctreeview_columns preview)" by simp
    with d c ne have "ctreeview_columns preview ! j \<noteq> ?r"
      by (simp add: nth_eq_iff_index_eq)
    with cells j show "ctreeview_model preview' ! j
        = (if ?cells ! j = new_text then ?none else ?cells ! j)"
      by (simp add: edited_cell_def)
  qed
  have fresh: "new_text \<noteq> ?none \<longrightarrow>
      (\<forall>j < length ?cells. j \<noteq> col \<longrightarrow> ctreeview_model preview' ! j \<noteq> new_text)"
    using other by auto
  have apart: "types_apart ?cells \<longrightarrow> types_apart (ctreeview_model preview')"
  proof
    assume a: "types_apart ?cells"
    show "types_apart (ctreeview_model preview')"
      unfolding types_apart_def distinct_filter_nth
    proof (intro allI impI)
      fix i j
      assume h: "i < j \<and> j < length (ctreeview_model preview')
          \<and> ctreeview_model preview' ! i \<noteq> ?none \<and> ctreeview_model preview' ! j \<noteq> ?none"
      then have ij: "i < j" "j < length ?cells" "i < length ?cells"
        and nn: "ctreeview_model preview' ! i \<noteq> ?none" "ctreeview_model preview' ! j \<noteq> ?none"
        using len by simp_all
      show "ctreeview_model preview' ! i \<noteq> ctreeview_model preview' ! j"
      proof (cases "i = col \<or> j = col")
        case True
        with ij nn at_col other show ?thesis by (metis less_irrefl)
      next
        case False
        with ij other nn have e: "ctreeview_model preview' ! i = ?cells ! i"
          "ctreeview_model preview' ! j = ?cells ! j"
          by (metis)+
        from a ij nn e have "?cells ! i \<noteq> ?cells ! j"
          unfolding types_apart_def distinct_filter_nth by simp
        with e show ?thesis by simp
      qed
    qed
  qed
  from ev fr len at_col other fresh apart show ?thesis by blast
qed


theorem column_type_edit_keeps_types_apart_witness:
  "ctreeview_model demo_typed = [''Date'', ''None'', ''Amount'']
   \<and> length (ctreeview_columns demo_typed) = length (column_types (parse_data demo_typed))
   \<and> length (ctreeview_model demo_typed) = length (column_types (parse_data demo_typed))
   \<and> distinct (ctreeview_columns demo_typed)
   \<and> 2 < length (ctreeview_columns demo_typed)
   \<and> types_apart (ctreeview_model demo_typed)
   \<and> map_sum id ctreeview_model (handle_event 0 demo_model (EditColumnType 2 ''Date'') demo_typed)
       = Inr [''None'', ''None'', ''Date'']
   \<and> types_apart [''None'', ''None'', ''Date'']"
proof -
  have m: "ctreeview_model demo_typed = [''Date'', ''None'', ''Amount'']" by code_simp
  have n1: "length (ctreeview_columns demo_typed) = length (column_types (parse_data demo_typed))"
    by code_simp
  have n2: "length (ctreeview_model demo_typed) = length (column_types (parse_data demo_typed))"
    by code_simp
  have d: "distinct (ctreeview_columns demo_typed)" by code_simp
  have c: "2 < length (ctreeview_columns demo_typed)" by code_simp
  have a: "types_apart (ctreeview_model demo_typed)" by code_simp
  from column_type_edit_keeps_types_apart [OF n1 n2 d c, of 0 demo_model "''Date''"] a
  obtain preview' where
    r: "handle_event 0 demo_model (EditColumnType 2 ''Date'') demo_typed = Inr preview'"
    and l: "length (ctreeview_model preview') = length (ctreeview_model demo_typed)"
    and at: "ctreeview_model preview' ! 2 = ''Date''"
    and other: "\<forall>j < length (ctreeview_model demo_typed). j \<noteq> 2 \<longrightarrow>
        ctreeview_model preview' ! j
          = (if ctreeview_model demo_typed ! j = ''Date''
             then column_type_strs GNC_CSV_NONE else ctreeview_model demo_typed ! j)"
    and ap: "types_apart (ctreeview_model preview')"
    by blast
  from other [rule_format, of 0] other [rule_format, of 1] m
  have o: "ctreeview_model preview' ! 0 = ''None''" "ctreeview_model preview' ! 1 = ''None''"
    by simp_all
  from l m have l3: "length (ctreeview_model preview') = 3" by simp
  have cells: "ctreeview_model preview' = [''None'', ''None'', ''Date'']"
  proof (rule nth_equalityI)
    show "length (ctreeview_model preview') = length [''None'', ''None'', ''Date'']"
      using l3 by simp
  next
    fix i assume "i < length (ctreeview_model preview')"
    with l3 have "i = 0 \<or> i = 1 \<or> i = 2" by arith
    with o at show "ctreeview_model preview' ! i = [''None'', ''None'', ''Date''] ! i"
      by auto
  qed
  from r cells have res: "map_sum id ctreeview_model
      (handle_event 0 demo_model (EditColumnType 2 ''Date'') demo_typed)
       = Inr [''None'', ''None'', ''Date'']" by simp
  from ap cells have ap': "types_apart [''None'', ''None'', ''Date'']" by simp
  from m n1 n2 d c a res ap' show ?thesis by blast
qed

subsection \<open>The import from the file dialog to the hand-off\<close>

lemma preview_treeview_approved:
  "gnc_csv_preview_treeview p notEmpty = Inr p' \<Longrightarrow>
     approved p' = approved p \<and> dialog_visible p' = dialog_visible p
     \<and> previewing_errors p' = previewing_errors p"
  by (auto simp: gnc_csv_preview_treeview_def code_caused_call_def Let_def split: sum.splits)

lemma toggle_button_approved: "approved (toggle_button w p) = approved p"
  by (simp add: toggle_button_def split: sep_widget.splits)

lemma sep_button_clicked_approved:
  "sep_button_clicked depth M w p = Inr p' \<Longrightarrow> approved p' = approved p"
proof (induction depth arbitrary: p)
  case 0
  then show ?case by simp
next
  case (Suc depth)
  show ?case
  proof (cases "fst (set_separators_and_parse M p) = None")
    case True
    from sep_button_clicked_ok [OF True, of depth w] Suc.prems
    have "gnc_csv_preview_treeview
        (p\<lparr>parse_data := snd (set_separators_and_parse M p)\<rparr>) True = Inr p'" by simp
    from preview_treeview_approved [OF this] show ?thesis by simp
  next
    case False
    note u = sep_button_clicked_failed [OF False, of depth w]
    show ?thesis
    proof (cases "w = CUSTOM_ENTRY")
      case True
      show ?thesis
      proof (cases "custom_entry p = []")
        case e: True
        with u True Suc.prems have "p' = parse_failed M p" by simp
        then show ?thesis by (simp add: parse_failed_def)
      next
        case e: False
        with u True Suc.prems
        have "sep_button_clicked depth M w ((parse_failed M p)\<lparr>custom_entry := []\<rparr>) = Inr p'"
          by simp
        from Suc.IH [OF this] show ?thesis by (simp add: parse_failed_def)
      qed
    next
      case False
      with u Suc.prems
      have "sep_button_clicked depth M w (toggle_button w (parse_failed M p)) = Inr p'"
        by simp
      from Suc.IH [OF this] show ?thesis
        by (simp add: toggle_button_approved parse_failed_def)
    qed
  qed
qed

lemma encoding_selected_approved:
  "(encoding_selected depth M enc p = Inr p' \<longrightarrow> approved p' = approved p)
   \<and> (go_charmap_sel_set_encoding depth M enc p = Inr p' \<longrightarrow> approved p' = approved p)"
proof (induction depth arbitrary: enc p p')
  case 0
  show ?case by (simp add: go_charmap_sel_set_encoding.simps)
next
  case (Suc depth)
  have handler: "approved q' = approved q"
    if r: "encoding_selected (Suc depth) M e q = Inr q'" for e q q'
  proof (cases "0 < code_encoding_calls q")
    case True
    with r show ?thesis by (auto simp: encoding_selected.simps(2) code_caused_call_def)
  next
    case c: False
    show ?thesis
    proof (cases "encoding_selected_called q")
      case False
      with c r show ?thesis by (auto simp: encoding_selected_first)
    next
      case f: True
      show ?thesis
      proof (cases "fst (convert_and_parse M e (parse_data q)) = None")
        case True
        from encoding_selected_acts_ok [OF c f True, of depth] r
        show ?thesis by (auto split: sum.splits dest: preview_treeview_approved)
      next
        case False
        from encoding_selected_acts_failed [OF c f False, of depth] r Suc.IH
        show ?thesis by fastforce
      qed
    qed
  qed
  have selector: "approved q' = approved q"
    if r: "go_charmap_sel_set_encoding (Suc depth) M e q = Inr q'" for e q q'
  proof -
    from r obtain q1 where
      a: "encoding_selected (Suc depth) M e (q\<lparr>encselector := e\<rparr>) = Inr q1"
      and b: "encoding_selected (Suc depth) M e q1 = Inr q'"
      by (auto simp: go_charmap_sel_set_encoding.simps split: sum.splits)
    from handler [OF a] handler [OF b] show ?thesis by simp
  qed
  from handler selector show ?case by blast
qed

lemma column_type_edited_approved:
  assumes "column_type_edited r t p = Inr p'"
  shows "approved p' = approved p"
proof -
  from assms have "p' = p\<lparr>ctreeview_model := ctreeview_model p'\<rparr>"
    using column_type_edited_loop_frame by (simp add: column_type_edited_def)
  then have "approved p' = approved (p\<lparr>ctreeview_model := ctreeview_model p'\<rparr>)" by simp
  then show ?thesis by simp
qed

lemma handle_event_approved:
  assumes "handle_event depth M ev p = Inr p'" and "ev \<noteq> ClickOK"
  shows "approved p' = approved p"
proof (cases ev)
  case (ToggleSeparator i)
  show ?thesis
  proof (cases "i < length (sep_buttons p)")
    case True
    with assms(1) ToggleSeparator
    have "sep_button_clicked depth M (SEP_BUTTON i) (toggle_button (SEP_BUTTON i) p) = Inr p'"
      by simp
    from sep_button_clicked_approved [OF this] show ?thesis
      by (simp add: toggle_button_approved)
  next
    case False
    with assms(1) ToggleSeparator show ?thesis by simp
  qed
next
  case ToggleCustomSeparator
  with assms(1)
  have "sep_button_clicked depth M CUSTOM_CBUTTON (toggle_button CUSTOM_CBUTTON p) = Inr p'"
    by simp
  from sep_button_clicked_approved [OF this] show ?thesis
    by (simp add: toggle_button_approved)
next
  case (EditCustomSeparator sep)
  show ?thesis
  proof (cases "custom_entry p = sep")
    case True
    with assms(1) EditCustomSeparator show ?thesis by simp
  next
    case False
    with assms(1) EditCustomSeparator
    have "sep_button_clicked depth M CUSTOM_ENTRY (p\<lparr>custom_entry := sep\<rparr>) = Inr p'"
      by simp
    from sep_button_clicked_approved [OF this] show ?thesis by simp
  qed
next
  case (SelectEncoding enc)
  with assms(1) show ?thesis
    using encoding_selected_approved [of depth M enc p p'] by simp
next
  case (SelectDateFormat k)
  with assms(1) show ?thesis by (auto simp: date_format_selected_def)
next
  case (EditColumnType col new_text)
  with assms(1) show ?thesis
    by (auto split: if_splits dest: column_type_edited_approved)
next
  case ClickOK
  with assms(2) show ?thesis by simp
next
  case ClickCancel
  with assms(1) show ?thesis by (auto simp: cancel_button_clicked_def)
qed

lemma dialog_events_not_approved:
  "dialog_events depth M events p = Inr p' \<Longrightarrow> no_ok_before_cancel events \<Longrightarrow>
     approved p' = approved p"
proof (induction events arbitrary: p)
  case Nil
  then show ?case by simp
next
  case (Cons ev events)
  from Cons.prems(2) have ne: "ev \<noteq> ClickOK"
    by (auto simp: no_ok_before_cancel_def split: if_splits)
  from Cons.prems(1) obtain p1 where h: "handle_event depth M ev p = Inr p1"
    by (auto split: sum.splits)
  from handle_event_approved [OF h ne] have a1: "approved p1 = approved p" .
  show ?case
  proof (cases "ev = ClickCancel")
    case True
    with h have "\<not> dialog_visible p1" by (auto simp: cancel_button_clicked_def)
    with Cons.prems(1) h have "p' = p1" by simp
    with a1 show ?thesis by simp
  next
    case False
    with Cons.prems(2) have rest: "no_ok_before_cancel events"
      by (simp add: no_ok_before_cancel_def)
    show ?thesis
    proof (cases "dialog_visible p1")
      case True
      with Cons.prems(1) h have "dialog_events depth M events p1 = Inr p'" by simp
      from Cons.IH [OF this rest] a1 show ?thesis by simp
    next
      case False
      with Cons.prems(1) h have "p' = p1" by simp
      with a1 show ?thesis by simp
    qed
  qed
qed

lemma gnc_csv_preview_cancelled:
  assumes "gnc_csv_preview depth M events preview pd = Inr (not_approved, preview')"
    and "no_ok_before_cancel events"
  shows "not_approved = 1"
proof -
  let ?p0 = "preview\<lparr>parse_data := pd, previewing_errors := False, approved := False\<rparr>"
  from assms(1) obtain p1 p2 where
    r: "gnc_csv_preview_treeview ?p0 False = Inr p1"
    and g: "gtk_dialog_run depth M events p1 = Inr p2"
    and n: "not_approved = (if approved p2 then 0 else 1)"
    by (auto simp: gnc_csv_preview_def Let_def split: sum.splits)
  from preview_treeview_approved [OF r] have "\<not> approved p1" by simp
  moreover from g have "dialog_events depth M events (p1\<lparr>dialog_visible := True\<rparr>) = Inr p2"
    by (simp add: gtk_dialog_run_def)
  from dialog_events_not_approved [OF this assms(2)] have "approved p2 = approved p1" by simp
  ultimately show ?thesis using n by simp
qed



lemma error_round_effects:
  "error_round depth M account events (effects, p)
     = map_sum id (\<lambda>(uc, tr, p'). (uc, effects @ tr, p')) (error_round depth M account events ([], p))"
  by (auto simp: error_round_def split: sum.splits)




lemma correct_errors_effects:
  "correct_errors depth M account sittings uc (effects, p)
     = map_sum id (\<lambda>(uc', tr, p'). (uc', effects @ tr, p'))
         (correct_errors depth M account sittings uc ([], p))"
proof (induction sittings arbitrary: uc effects p)
  case Nil
  show ?case
  proof (cases "error_lines (parse_data p) = [] \<or> uc \<noteq> 0")
    case True
    then show ?thesis by auto
  next
    case False
    then have "correct_errors depth M account [] uc (effects, p) = error_round depth M account [] (effects, p)"
      and "correct_errors depth M account [] uc ([], p) = error_round depth M account [] ([], p)"
      by simp_all
    then show ?thesis by (simp only: error_round_effects [of depth M account "[]" effects p])
  qed
next
  case (Cons events later)
  show ?case
  proof (cases "error_lines (parse_data p) = [] \<or> uc \<noteq> 0")
    case True
    then show ?thesis by auto
  next
    case False
    show ?thesis
    proof (cases "error_round depth M account events ([], p)")
      case (Inl f)
      with False show ?thesis
        using error_round_effects [of depth M account events effects p] by simp
    next
      case (Inr r)
      obtain uc1 tr1 p1 where r: "r = (uc1, tr1, p1)" by (cases r) auto
      from Inr r have e0: "error_round depth M account events ([], p) = Inr (uc1, tr1, p1)" by simp
      with error_round_effects [of depth M account events effects p]
      have e1: "error_round depth M account events (effects, p) = Inr (uc1, effects @ tr1, p1)"
        by simp
      have a: "correct_errors depth M account later uc1 (effects @ tr1, p1)
          = map_sum id (\<lambda>(uc', tr, p'). (uc', (effects @ tr1) @ tr, p'))
              (correct_errors depth M account later uc1 ([], p1))"
        by (rule Cons.IH)
      have b: "correct_errors depth M account later uc1 (tr1, p1)
          = map_sum id (\<lambda>(uc', tr, p'). (uc', tr1 @ tr, p'))
              (correct_errors depth M account later uc1 ([], p1))"
        by (rule Cons.IH)
      show ?thesis
        using False e0 e1 a b
        by (cases "correct_errors depth M account later uc1 ([], p1)") auto
    qed
  qed
qed


lemma import_loaded_cancelled:
  assumes ps: "gnc_csv_parse M pd True = (perr, pd1)"
    and pv: "gnc_csv_preview depth M (preview_events run) (gnc_csv_preview_new (glade_dialog run)) pd1
               = Inr (not_approved, preview)"
    and na: "not_approved \<noteq> 0"
  shows "import_loaded depth M run pd effects = Inr (effects @ report perr @ [PreviewFree, ParseDataFree])"
  using ps pv na by (simp add: import_loaded_def)

lemma import_loaded_no_account:
  assumes ps: "gnc_csv_parse M pd True = (perr, pd1)"
    and pv: "gnc_csv_preview depth M (preview_events run) (gnc_csv_preview_new (glade_dialog run)) pd1
               = Inr (0, preview)"
    and acct: "selected_account run = None"
  shows "import_loaded depth M run pd effects = Inr (effects @ report perr @ [PreviewFree, ParseDataFree])"
  using ps pv acct by (simp add: import_loaded_def)

lemma import_loaded_approved:
  assumes ps: "gnc_csv_parse M pd True = (perr, pd1)"
    and pv: "gnc_csv_preview depth M (preview_events run) (gnc_csv_preview_new (glade_dialog run)) pd1
               = Inr (0, preview)"
    and acct: "selected_account run = Some account"
    and loop: "correct_errors depth M account (error_events run) 0
                 ([], preview\<lparr>parse_data := gnc_parse_to_trans M (parse_data preview) account False\<rparr>)
               = Inr (user_canceled, rounds, final)"
  shows "import_loaded depth M run pd effects
     = Inr (effects @ report perr @ [ParseToTrans False] @ rounds
            @ hand_off (parse_data final) @ [PreviewFree, ParseDataFree])"
proof -
  let ?p = "preview\<lparr>parse_data := gnc_parse_to_trans M (parse_data preview) account False\<rparr>"
  from correct_errors_effects [of depth M account "error_events run" 0
      "effects @ report perr @ [ParseToTrans False]" ?p] loop
  have "correct_errors depth M account (error_events run) 0
          (effects @ report perr @ [ParseToTrans False], ?p)
        = Inr (user_canceled, (effects @ report perr @ [ParseToTrans False]) @ rounds, final)"
    by simp
  with ps pv acct show ?thesis by (simp add: import_loaded_def Let_def)
qed

lemma import_loaded_effects:
  "import_loaded depth M run pd effects
     = map_sum id (\<lambda>tr. effects @ tr) (import_loaded depth M run pd [])"
proof -
  obtain perr pd1 where ps: "gnc_csv_parse M pd True = (perr, pd1)"
    by (cases "gnc_csv_parse M pd True") auto
  show ?thesis
  proof (cases "gnc_csv_preview depth M (preview_events run) (gnc_csv_preview_new (glade_dialog run)) pd1")
    case (Inl f)
    with ps show ?thesis by (simp add: import_loaded_def)
  next
    case (Inr r)
    obtain na preview where r: "r = (na, preview)" by (cases r) auto
    show ?thesis
    proof (cases "na \<noteq> 0")
      case True
      with Inr r ps show ?thesis by (simp add: import_loaded_cancelled)
    next
      case False
      with Inr r have pv: "gnc_csv_preview depth M (preview_events run)
          (gnc_csv_preview_new (glade_dialog run)) pd1 = Inr (0, preview)" by simp
      show ?thesis
      proof (cases "selected_account run")
        case None
        with ps pv show ?thesis by (simp add: import_loaded_no_account)
      next
        case (Some account)
        let ?p = "preview\<lparr>parse_data := gnc_parse_to_trans M (parse_data preview) account False\<rparr>"
        show ?thesis
        proof (cases "correct_errors depth M account (error_events run) 0 ([], ?p)")
          case (Inl f)
          have a: "correct_errors depth M account (error_events run) 0
              (effects @ report perr @ [ParseToTrans False], ?p) = Inl f"
            using correct_errors_effects [of depth M account "error_events run" 0
              "effects @ report perr @ [ParseToTrans False]" ?p] Inl by simp
          have b: "correct_errors depth M account (error_events run) 0
              (report perr @ [ParseToTrans False], ?p) = Inl f"
            using correct_errors_effects [of depth M account "error_events run" 0
              "report perr @ [ParseToTrans False]" ?p] Inl by simp
          from ps pv Some a b show ?thesis by (simp add: import_loaded_def Let_def)
        next
          case (Inr q)
          obtain uc rounds final where q: "q = (uc, rounds, final)" by (cases q) auto
          from Inr q have loop: "correct_errors depth M account (error_events run) 0 ([], ?p)
              = Inr (uc, rounds, final)" by simp
          from import_loaded_approved [OF ps pv Some loop, of effects]
            import_loaded_approved [OF ps pv Some loop, of "[]"]
          show ?thesis by simp
        qed
      qed
    qed
  qed
qed


lemma report_dialogs: "list_all is_error_dialog (report error)"
  by (cases error) (simp_all add: report_def)

lemma import_file_not_fatal:
  assumes fn: "selected_filename run = Some filename"
    and ld: "gnc_csv_load_file M (gnc_csv_new_parse_data M) filename = (lerr, pd)"
    and nf: "\<not> load_is_fatal lerr"
  shows "gnc_file_csv_import depth M run = import_loaded depth M run pd (report lerr)"
  using fn ld nf
  by (cases lerr) (simp_all add: gnc_file_csv_import_def load_is_fatal_def report_def)

lemma import_loaded_frees:
  "import_loaded depth M run pd effects = Inr tr \<Longrightarrow> \<exists>body. tr = body @ [PreviewFree, ParseDataFree]"
proof -
  assume a: "import_loaded depth M run pd effects = Inr tr"
  obtain perr pd1 where ps: "gnc_csv_parse M pd True = (perr, pd1)"
    by (cases "gnc_csv_parse M pd True") auto
  have "\<exists>na preview. gnc_csv_preview depth M (preview_events run)
      (gnc_csv_preview_new (glade_dialog run)) pd1 = Inr (na, preview)"
  proof (cases "gnc_csv_preview depth M (preview_events run)
      (gnc_csv_preview_new (glade_dialog run)) pd1")
    case (Inl f)
    with a ps show ?thesis by (simp add: import_loaded_def)
  next
    case (Inr r)
    then show ?thesis by (cases r) auto
  qed
  then obtain na preview where pv: "gnc_csv_preview depth M (preview_events run)
      (gnc_csv_preview_new (glade_dialog run)) pd1 = Inr (na, preview)"
    by blast
  show ?thesis
  proof (cases "na \<noteq> 0")
    case True
    from import_loaded_cancelled [OF ps pv True, of effects] a
    have "tr = (effects @ report perr) @ [PreviewFree, ParseDataFree]" by simp
    then show ?thesis by blast
  next
    case False
    then have pv0: "gnc_csv_preview depth M (preview_events run)
      (gnc_csv_preview_new (glade_dialog run)) pd1 = Inr (0, preview)" using pv by simp
    show ?thesis
    proof (cases "selected_account run")
      case None
      from import_loaded_no_account [OF ps pv0 None, of effects] a
      have "tr = (effects @ report perr) @ [PreviewFree, ParseDataFree]" by simp
      then show ?thesis by blast
    next
      case (Some account)
      let ?p = "preview\<lparr>parse_data := gnc_parse_to_trans M (parse_data preview) account False\<rparr>"
      have "\<exists>q. correct_errors depth M account (error_events run) 0 ([], ?p) = Inr q"
      proof (cases "correct_errors depth M account (error_events run) 0 ([], ?p)")
        case (Inl f)
        then have "correct_errors depth M account (error_events run) 0
              (effects @ report perr @ [ParseToTrans False], ?p) = Inl f"
          using correct_errors_effects [of depth M account "error_events run" 0
              "effects @ report perr @ [ParseToTrans False]" ?p] by simp
        with a ps pv0 Some show ?thesis by (simp add: import_loaded_def Let_def)
      next
        case (Inr q)
        then show ?thesis by blast
      qed
      then obtain uc rounds final where
        loop: "correct_errors depth M account (error_events run) 0 ([], ?p) = Inr (uc, rounds, final)"
        by (metis prod_cases3)
      from import_loaded_approved [OF ps pv0 Some loop, of effects] a
      have "tr = (effects @ report perr @ [ParseToTrans False] @ rounds
            @ hand_off (parse_data final)) @ [PreviewFree, ParseDataFree]" by simp
      then show ?thesis by blast
    qed
  qed
qed

text \<open>
  Claim C7. The user has picked a file and \<^verbatim>\<open>gnc_csv_load_file\<close> fails. The import
  puts up the error's message. When the error is \<^verbatim>\<open>GNC_CSV_FILE_OPEN_ERR\<close> it frees
  the parse data and returns: nothing else happens. With any other error (the encoding
  could not be guessed) it goes on exactly as it would from the same parse data after a load
  without error, the dialog apart: it parses, builds the preview and runs it, so a run
  that returns has shown the error first and freed the preview and the parse data last.
\<close>

theorem load_failure_fatal_or_not:
  assumes fn: "selected_filename run = Some filename"
    and ld: "gnc_csv_load_file M (gnc_csv_new_parse_data M) filename = (Some e, pd)"
  shows "(code e = GNC_CSV_FILE_OPEN_ERR \<longrightarrow>
            gnc_file_csv_import depth M run = Inr [ErrorDialog (message e), ParseDataFree])
       \<and> (code e \<noteq> GNC_CSV_FILE_OPEN_ERR \<longrightarrow>
            gnc_file_csv_import depth M run
              = map_sum id (\<lambda>effects. ErrorDialog (message e) # effects)
                  (import_loaded depth M run pd []))
       \<and> (code e \<noteq> GNC_CSV_FILE_OPEN_ERR \<and> gnc_file_csv_import depth M run = Inr effects \<longrightarrow>
            (\<exists>body. effects = ErrorDialog (message e) # body @ [PreviewFree, ParseDataFree]))"
proof (intro conjI impI)
  assume "code e = GNC_CSV_FILE_OPEN_ERR"
  with fn ld show "gnc_file_csv_import depth M run = Inr [ErrorDialog (message e), ParseDataFree]"
    by (simp add: gnc_file_csv_import_def)
next
  assume ne: "code e \<noteq> GNC_CSV_FILE_OPEN_ERR"
  with fn ld have "gnc_file_csv_import depth M run = import_loaded depth M run pd [ErrorDialog (message e)]"
    by (simp add: gnc_file_csv_import_def)
  with import_loaded_effects [of depth M run pd "[ErrorDialog (message e)]"]
  show "gnc_file_csv_import depth M run
      = map_sum id (\<lambda>effects. ErrorDialog (message e) # effects) (import_loaded depth M run pd [])"
    by simp
next
  assume a: "code e \<noteq> GNC_CSV_FILE_OPEN_ERR \<and> gnc_file_csv_import depth M run = Inr effects"
  with fn ld have "gnc_file_csv_import depth M run = import_loaded depth M run pd [ErrorDialog (message e)]"
    by (simp add: gnc_file_csv_import_def)
  with import_loaded_effects [of depth M run pd "[ErrorDialog (message e)]"] a
  obtain tr where tr: "import_loaded depth M run pd [] = Inr tr"
    and e: "effects = ErrorDialog (message e) # tr"
    by (cases "import_loaded depth M run pd []") auto
  from import_loaded_frees [OF tr] e
  show "\<exists>body. effects = ErrorDialog (message e) # body @ [PreviewFree, ParseDataFree]"
    by auto
qed

theorem load_failure_fatal_or_not_witness:
  "selected_filename demo_missing = Some ''missing.csv''
   \<and> gnc_csv_load_file demo_model (gnc_csv_new_parse_data demo_model) ''missing.csv''
       = (Some \<lparr>code = GNC_CSV_FILE_OPEN_ERR, message = ''File opening failed.''\<rparr>, demo_new)
   \<and> gnc_file_csv_import 3 demo_model demo_missing
       = Inr [ErrorDialog ''File opening failed.'', ParseDataFree]
   \<and> selected_filename demo_binary = Some ''binary.csv''
   \<and> gnc_csv_load_file demo_model (gnc_csv_new_parse_data demo_model) ''binary.csv''
       = (Some \<lparr>code = GNC_CSV_ENCODING_ERR, message = ''Unknown encoding.''\<rparr>, demo_new)
   \<and> gnc_file_csv_import 3 demo_model demo_binary
       = Inr [ErrorDialog ''Unknown encoding.'', ParseToTrans False, ParseToTrans True,
              ParseToTrans True, TransListNew, TransListAddTrans 100, TransListAddTrans 101,
              TransListRun, PreviewFree, ParseDataFree]"
proof -
  have f1: "selected_filename demo_missing = Some ''missing.csv''" by code_simp
  have l1: "gnc_csv_load_file demo_model (gnc_csv_new_parse_data demo_model) ''missing.csv''
       = (Some \<lparr>code = GNC_CSV_FILE_OPEN_ERR, message = ''File opening failed.''\<rparr>, demo_new)"
    by code_simp
  have f2: "selected_filename demo_binary = Some ''binary.csv''" by code_simp
  have l2: "gnc_csv_load_file demo_model (gnc_csv_new_parse_data demo_model) ''binary.csv''
       = (Some \<lparr>code = GNC_CSV_ENCODING_ERR, message = ''Unknown encoding.''\<rparr>, demo_new)"
    by code_simp
  have c2: "import_loaded 3 demo_model demo_binary demo_new []
       = Inr [ParseToTrans False, ParseToTrans True,
              ParseToTrans True, TransListNew, TransListAddTrans 100, TransListAddTrans 101,
              TransListRun, PreviewFree, ParseDataFree]"
    by code_simp
  from load_failure_fatal_or_not [OF f1 l1]
  have r1: "gnc_file_csv_import 3 demo_model demo_missing
       = Inr [ErrorDialog ''File opening failed.'', ParseDataFree]" by simp
  from load_failure_fatal_or_not [OF f2 l2] c2
  have r2: "gnc_file_csv_import 3 demo_model demo_binary
       = Inr [ErrorDialog ''Unknown encoding.'', ParseToTrans False, ParseToTrans True,
              ParseToTrans True, TransListNew, TransListAddTrans 100, TransListAddTrans 101,
              TransListRun, PreviewFree, ParseDataFree]" by simp
  from f1 l1 r1 f2 l2 r2 show ?thesis by blast
qed

text \<open>
  Claim C8. The file was loaded (or only its encoding could not be guessed), and at the
  first preview the user presses Cancel or closes the window without having pressed OK.
  Then \<^verbatim>\<open>gnc_csv_preview\<close> returns 1 and the import does nothing more than free the
  preview and the parse data: apart from the error dialogs of the load and of the first
  parse, these two frees are all its effects, so \<^verbatim>\<open>gnc_parse_to_trans\<close> is not called
  and the transaction importer is not created.
\<close>

theorem cancel_at_first_preview:
  assumes fn: "selected_filename run = Some filename"
    and ld: "gnc_csv_load_file M (gnc_csv_new_parse_data M) filename = (lerr, pd)"
    and nf: "\<not> load_is_fatal lerr"
    and ps: "gnc_csv_parse M pd True = (perr, pd1)"
    and pv: "gnc_csv_preview depth M (preview_events run) (gnc_csv_preview_new (glade_dialog run)) pd1
               = Inr (not_approved, preview)"
    and cancel: "no_ok_before_cancel (preview_events run)"
  shows "not_approved = 1
       \<and> gnc_file_csv_import depth M run
           = Inr (report lerr @ report perr @ [PreviewFree, ParseDataFree])
       \<and> list_all is_error_dialog (report lerr @ report perr)"
proof -
  from gnc_csv_preview_cancelled [OF pv cancel] have na: "not_approved = 1" .
  then have "not_approved \<noteq> 0" by simp
  from import_loaded_cancelled [OF ps pv this, of "report lerr"]
    import_file_not_fatal [OF fn ld nf]
  have "gnc_file_csv_import depth M run
           = Inr (report lerr @ report perr @ [PreviewFree, ParseDataFree])" by simp
  with na show ?thesis by (simp add: report_dialogs)
qed


theorem cancel_at_first_preview_witness:
  "selected_filename demo_cancels = Some ''binary.csv''
   \<and> \<not> load_is_fatal
        (fst (gnc_csv_load_file demo_model (gnc_csv_new_parse_data demo_model) ''binary.csv''))
   \<and> no_ok_before_cancel (preview_events demo_cancels)
   \<and> map_sum id fst
        (gnc_csv_preview 3 demo_model (preview_events demo_cancels)
           (gnc_csv_preview_new (glade_dialog demo_cancels))
           (snd (gnc_csv_parse demo_model
                   (snd (gnc_csv_load_file demo_model (gnc_csv_new_parse_data demo_model)
                           ''binary.csv'')) True))) = Inr 1
   \<and> gnc_file_csv_import 3 demo_model demo_cancels
       = Inr [ErrorDialog ''Unknown encoding.'', PreviewFree, ParseDataFree]"
proof -
  let ?load = "gnc_csv_load_file demo_model (gnc_csv_new_parse_data demo_model) ''binary.csv''"
  let ?parse = "gnc_csv_parse demo_model (snd ?load) True"
  let ?pv = "gnc_csv_preview 3 demo_model (preview_events demo_cancels)
           (gnc_csv_preview_new (glade_dialog demo_cancels)) (snd ?parse)"
  have fn: "selected_filename demo_cancels = Some ''binary.csv''" by code_simp
  have ld: "?load = (fst ?load, snd ?load)" by simp
  have nf: "\<not> load_is_fatal (fst ?load)" by code_simp
  have ps: "gnc_csv_parse demo_model (snd ?load) True = (fst ?parse, snd ?parse)" by simp
  have cancel: "no_ok_before_cancel (preview_events demo_cancels)" by code_simp
  have rl: "report (fst ?load) = [ErrorDialog ''Unknown encoding.'']" by code_simp
  have rp: "report (fst ?parse) = []" by code_simp
  have "\<not> isl ?pv" by code_simp
  then obtain na preview where pv: "?pv = Inr (na, preview)"
    using not_isl_Inr_pair by blast
  from cancel_at_first_preview [OF fn ld nf ps pv cancel] rl rp
  have "na = 1" and r: "gnc_file_csv_import 3 demo_model demo_cancels
       = Inr [ErrorDialog ''Unknown encoding.'', PreviewFree, ParseDataFree]"
    by simp_all
  with pv have "map_sum id fst ?pv = Inr 1" by simp
  with fn nf cancel r show ?thesis by blast
qed


subsection \<open>The loop that shows the error lines\<close>











end
